theory Spec2Isabelle
  imports Main "HOL-Library.AList"
begin

section \<open>Python values\<close>

text \<open>
  The workflow of \<^verbatim>\<open>hello_world.py\<close> passes plain Python data between its five tasks:
  integers, strings, lists and dictionaries with string keys. A dictionary is an association
  list, in insertion order (the order in which Python prints it). Strings are lists of
  8-bit characters, so the model covers ASCII text.
\<close>

datatype pyval =
    PNone
  | PBool bool
  | PInt int
  | PStr string
  | PList "pyval list"
  | PDict "(string \<times> pyval) list"

text \<open>
  The exceptions that the operations below can raise. \<^verbatim>\<open>SystemError\<close> stands for a
  reference to no object, which no Python program can produce; it is raised only by the
  heap operations of the last part, on an address that is not in use.
\<close>

datatype py_error = KeyError | IndexError | TypeError | AttributeError | SystemError

subsection \<open>Subscripts, methods and builtins\<close>

text \<open>\<^verbatim>\<open>obj[key]\<close> with a string key: only a dictionary accepts it.\<close>

fun py_getitem :: "pyval \<Rightarrow> string \<Rightarrow> py_error + pyval" where
  "py_getitem (PDict kvs) k =
     (case map_of kvs k of None \<Rightarrow> Inl KeyError | Some v \<Rightarrow> Inr v)"
| "py_getitem _ k = Inl TypeError"

text \<open>\<^verbatim>\<open>obj[i]\<close> with an integer index; a negative index counts from the end.\<close>

definition seq_index :: "'a list \<Rightarrow> int \<Rightarrow> py_error + 'a" where
  "seq_index xs i =
     (if 0 \<le> i \<and> i < int (length xs) then Inr (xs ! nat i)
      else if i < 0 \<and> - int (length xs) \<le> i then Inr (xs ! nat (int (length xs) + i))
      else Inl IndexError)"

fun py_index :: "pyval \<Rightarrow> int \<Rightarrow> py_error + pyval" where
  "py_index (PList xs) i = seq_index xs i"
| "py_index (PStr s) i =
     (case seq_index s i of Inl e \<Rightarrow> Inl e | Inr c \<Rightarrow> Inr (PStr [c]))"
| "py_index (PDict kvs) i = Inl KeyError"
| "py_index _ i = Inl TypeError"

text \<open>\<^verbatim>\<open>obj[key] = v\<close>: an existing key keeps its place, a new key goes last.\<close>

fun py_setitem :: "pyval \<Rightarrow> string \<Rightarrow> pyval \<Rightarrow> py_error + pyval" where
  "py_setitem (PDict kvs) k v = Inr (PDict (AList.update k v kvs))"
| "py_setitem _ k v = Inl TypeError"

text \<open>\<^verbatim>\<open>obj.get(key)\<close>: a method of dictionaries only; an absent key gives \<^verbatim>\<open>None\<close>.\<close>

fun py_get :: "pyval \<Rightarrow> string \<Rightarrow> py_error + pyval" where
  "py_get (PDict kvs) k = Inr (case map_of kvs k of None \<Rightarrow> PNone | Some v \<Rightarrow> v)"
| "py_get _ k = Inl AttributeError"

text \<open>
  \<^verbatim>\<open>lst.append(x)\<close>: a method of lists only. Python looks the method up before it
  evaluates the argument, so the lookup is an operation of its own.
\<close>

fun py_append_method :: "pyval \<Rightarrow> py_error + unit" where
  "py_append_method (PList xs) = Inr ()"
| "py_append_method _ = Inl AttributeError"

fun py_append :: "pyval \<Rightarrow> pyval \<Rightarrow> py_error + pyval" where
  "py_append (PList xs) x = Inr (PList (xs @ [x]))"
| "py_append _ x = Inl AttributeError"

text \<open>Truth value testing, as \<^verbatim>\<open>not x\<close> and \<^verbatim>\<open>if x\<close> apply it.\<close>

fun py_truthy :: "pyval \<Rightarrow> bool" where
  "py_truthy PNone = False"
| "py_truthy (PBool b) = b"
| "py_truthy (PInt i) = (i \<noteq> 0)"
| "py_truthy (PStr s) = (s \<noteq> [])"
| "py_truthy (PList xs) = (xs \<noteq> [])"
| "py_truthy (PDict kvs) = (kvs \<noteq> [])"

fun py_len :: "pyval \<Rightarrow> py_error + int" where
  "py_len (PStr s) = Inr (int (length s))"
| "py_len (PList xs) = Inr (int (length xs))"
| "py_len (PDict kvs) = Inr (int (length kvs))"
| "py_len _ = Inl TypeError"

text \<open>The elements a \<^verbatim>\<open>for\<close> loop visits: a dictionary yields its keys, a string its characters.\<close>

fun py_iter :: "pyval \<Rightarrow> py_error + pyval list" where
  "py_iter (PList xs) = Inr xs"
| "py_iter (PDict kvs) = Inr (map (\<lambda>kv. PStr (fst kv)) kvs)"
| "py_iter (PStr s) = Inr (map (\<lambda>c. PStr [c]) s)"
| "py_iter _ = Inl TypeError"

text \<open>\<^verbatim>\<open>x > n\<close> for an integer constant \<^verbatim>\<open>n\<close>; \<^verbatim>\<open>bool\<close> is a subtype of \<^verbatim>\<open>int\<close>.\<close>

fun py_gt_int :: "pyval \<Rightarrow> int \<Rightarrow> py_error + bool" where
  "py_gt_int (PInt i) n = Inr (i > n)"
| "py_gt_int (PBool b) n = Inr ((if b then 1 else 0) > n)"
| "py_gt_int _ n = Inl TypeError"

text \<open>\<^verbatim>\<open>x + n\<close> for an integer constant \<^verbatim>\<open>n\<close>.\<close>

fun py_add_int :: "pyval \<Rightarrow> int \<Rightarrow> py_error + pyval" where
  "py_add_int (PInt i) n = Inr (PInt (i + n))"
| "py_add_int (PBool b) n = Inr (PInt ((if b then 1 else 0) + n))"
| "py_add_int _ n = Inl TypeError"

subsection \<open>String methods\<close>

text \<open>Upper case of an ASCII letter; every other character is its own upper case.\<close>

definition upper_char :: "char \<Rightarrow> char" where
  "upper_char c =
     (case map_of (zip ''abcdefghijklmnopqrstuvwxyz'' ''ABCDEFGHIJKLMNOPQRSTUVWXYZ'') c of
        None \<Rightarrow> c
      | Some u \<Rightarrow> u)"

text \<open>\<^verbatim>\<open>s.upper()\<close>: a method of strings only.\<close>

fun py_upper :: "pyval \<Rightarrow> py_error + pyval" where
  "py_upper (PStr s) = Inr (PStr (map upper_char s))"
| "py_upper _ = Inl AttributeError"

text \<open>
  \<^verbatim>\<open>s.split(sep)\<close> for a one-character separator: the segments between the occurrences of
  the separator, empty segments included, so that there is one more segment than there are
  separators.
\<close>

fun split_on :: "char \<Rightarrow> string \<Rightarrow> string list" where
  "split_on c [] = [[]]"
| "split_on c (x # xs) =
     (if x = c then [] # split_on c xs
      else (case split_on c xs of [] \<Rightarrow> [[x]] | s # ss \<Rightarrow> (x # s) # ss))"

fun py_split :: "pyval \<Rightarrow> char \<Rightarrow> py_error + pyval" where
  "py_split (PStr s) c = Inr (PList (map PStr (split_on c s)))"
| "py_split _ c = Inl AttributeError"

subsection \<open>Formatting\<close>

definition digit_char :: "nat \<Rightarrow> char" where
  "digit_char d = ''0123456789abcdef'' ! d"

function digits_of :: "nat \<Rightarrow> string" where
  "digits_of n =
     (if n < 10 then [digit_char n]
      else digits_of (n div 10) @ [digit_char (n mod 10)])"
  by pat_completeness auto
termination
  by (relation "measure id") auto

declare digits_of.simps [simp del]

definition str_int :: "int \<Rightarrow> string" where
  "str_int i = (if i < 0 then CHR ''-'' # digits_of (nat (- i)) else digits_of (nat i))"

text \<open>\<^verbatim>\<open>repr\<close> of a string: the quote is chosen first, then each character is escaped.\<close>

definition repr_char :: "char \<Rightarrow> char \<Rightarrow> string" where
  "repr_char q c =
     (let n = (of_char c :: nat) in
      if c = q \<or> c = CHR 0x5C then [CHR 0x5C, c]
      else if n = 9 then [CHR 0x5C, CHR ''t'']
      else if n = 10 then [CHR 0x5C, CHR ''n'']
      else if n = 13 then [CHR 0x5C, CHR ''r'']
      else if n < 32 \<or> n = 127 then [CHR 0x5C, CHR ''x'', digit_char (n div 16), digit_char (n mod 16)]
      else [c])"

definition repr_str :: "string \<Rightarrow> string" where
  "repr_str s =
     (let q = (if CHR 0x27 \<in> set s \<and> CHR 0x22 \<notin> set s then CHR 0x22 else CHR 0x27)
      in [q] @ concat (map (repr_char q) s) @ [q])"

fun join :: "string \<Rightarrow> string list \<Rightarrow> string" where
  "join sep [] = []"
| "join sep [x] = x"
| "join sep (x # y # ys) = x @ sep @ join sep (y # ys)"

fun py_repr :: "pyval \<Rightarrow> string" where
  "py_repr PNone = ''None''"
| "py_repr (PBool b) = (if b then ''True'' else ''False'')"
| "py_repr (PInt i) = str_int i"
| "py_repr (PStr s) = repr_str s"
| "py_repr (PList xs) = ''['' @ join '', '' (map py_repr xs) @ '']''"
| "py_repr (PDict kvs) =
     ''{'' @ join '', '' (map (\<lambda>(k, v). repr_str k @ '': '' @ py_repr v) kvs) @ ''}''"

text \<open>\<^verbatim>\<open>str(x)\<close>, which is what a replacement field \<^verbatim>\<open>{x}\<close> of an f-string inserts.\<close>

fun py_str :: "pyval \<Rightarrow> string" where
  "py_str (PStr s) = s"
| "py_str v = py_repr v"

section \<open>Effects: the log, the clock and exceptions\<close>

text \<open>
  A task does three things besides computing a value: it writes lines to the process-wide
  log, it reads the clock (\<^verbatim>\<open>datetime.now().isoformat()\<close>), and it may raise. The world
  holds the log written so far and the clock, given as the sequence of its successive
  readings; a task maps a world to a result or an exception, and the world it leaves.
  The world also holds the heap of mutable objects, by address; it matters only where the
  identity of an object does (the last section), and the tasks as defined here work on
  values and leave it alone.
\<close>

datatype log_level = INFO | WARNING

record world =
  clock :: "nat \<Rightarrow> string"
  ticks :: nat
  logged :: "(log_level \<times> string) list"
  heap :: "pyval list"

type_synonym 'a task = "world \<Rightarrow> (py_error + 'a) \<times> world"

definition return :: "'a \<Rightarrow> 'a task" where
  "return x = (\<lambda>w. (Inr x, w))"

definition raise :: "py_error \<Rightarrow> 'a task" where
  "raise e = (\<lambda>w. (Inl e, w))"

definition then_do :: "'a task \<Rightarrow> ('a \<Rightarrow> 'b task) \<Rightarrow> 'b task" where
  "then_do m f = (\<lambda>w. case m w of (Inl e, w') \<Rightarrow> (Inl e, w') | (Inr x, w') \<Rightarrow> f x w')"

text \<open>The value of an expression that may raise.\<close>

definition eval :: "py_error + 'a \<Rightarrow> 'a task" where
  "eval r = (case r of Inl e \<Rightarrow> raise e | Inr x \<Rightarrow> return x)"

definition and_then :: "py_error + 'a \<Rightarrow> ('a \<Rightarrow> py_error + 'b) \<Rightarrow> py_error + 'b" where
  "and_then r f = (case r of Inl e \<Rightarrow> Inl e | Inr x \<Rightarrow> f x)"

definition logging_info :: "string \<Rightarrow> unit task" where
  "logging_info msg = (\<lambda>w. (Inr (), w\<lparr>logged := logged w @ [(INFO, msg)]\<rparr>))"

definition logging_warning :: "string \<Rightarrow> unit task" where
  "logging_warning msg = (\<lambda>w. (Inr (), w\<lparr>logged := logged w @ [(WARNING, msg)]\<rparr>))"

definition datetime_now_isoformat :: "pyval task" where
  "datetime_now_isoformat = (\<lambda>w. (Inr (PStr (clock w (ticks w))), w\<lparr>ticks := Suc (ticks w)\<rparr>))"

section \<open>The five tasks\<close>

subsection \<open>Extract\<close>

definition extract_data :: "pyval task" where
  "extract_data =
     then_do (logging_info ''Starting data extraction...'') (\<lambda>_.
     let data = PDict [(''users'', PList [
           PDict [(''id'', PInt 1), (''name'', PStr ''Alice''), (''email'', PStr ''alice@example.com'')],
           PDict [(''id'', PInt 2), (''name'', PStr ''Bob''), (''email'', PStr ''bob@example.com'')],
           PDict [(''id'', PInt 3), (''name'', PStr ''Charlie''), (''email'', PStr ''charlie@example.com'')]])]
     in
     then_do (eval (py_getitem data ''users'')) (\<lambda>users.
     then_do (eval (py_len users)) (\<lambda>n.
     then_do (logging_info (''Extracted '' @ str_int n @ '' user records'')) (\<lambda>_.
     return data))))"

subsection \<open>Transform\<close>

text \<open>
  The body of the loop of \<^verbatim>\<open>transform_data\<close>: the dictionary display evaluates its values
  from top to bottom, so the first of them that raises decides the exception.
\<close>

definition transform_user :: "pyval \<Rightarrow> pyval task" where
  "transform_user user =
     then_do (eval (py_getitem user ''id'')) (\<lambda>user_id.
     then_do (eval (py_getitem user ''name'')) (\<lambda>name.
     then_do (eval (py_upper name)) (\<lambda>full_name.
     then_do (eval (py_getitem user ''email'')) (\<lambda>email.
     then_do (eval (py_split email (CHR ''@''))) (\<lambda>parts.
     then_do (eval (py_index parts 1)) (\<lambda>email_domain.
     then_do datetime_now_isoformat (\<lambda>processed_at.
     return (PDict [(''user_id'', user_id), (''full_name'', full_name),
                    (''email_domain'', email_domain), (''processed_at'', processed_at)]))))))))"

fun transform_loop :: "pyval list \<Rightarrow> pyval list \<Rightarrow> pyval list task" where
  "transform_loop [] transformed_users = return transformed_users"
| "transform_loop (user # rest) transformed_users =
     then_do (transform_user user) (\<lambda>transformed_user.
     transform_loop rest (transformed_users @ [transformed_user]))"

definition transform_data :: "pyval \<Rightarrow> pyval task" where
  "transform_data raw_data =
     then_do (logging_info ''Starting data transformation...'') (\<lambda>_.
     then_do (eval (py_getitem raw_data ''users'')) (\<lambda>users.
     then_do (eval (py_iter users)) (\<lambda>us.
     then_do (transform_loop us []) (\<lambda>transformed_users.
     let result = PDict [(''transformed_users'', PList transformed_users)] in
     then_do (logging_info
        (''Transformed '' @ str_int (int (length transformed_users)) @ '' user records'')) (\<lambda>_.
     return result)))))"

subsection \<open>Validate\<close>

text \<open>
  \<^verbatim>\<open>validation_results\<close> is a dictionary that the loop updates in place. It is local to the
  task, so the model passes its current value along.
  \<^verbatim>\<open>validation_results['validation_errors'].append(msg)\<close> looks the list and its method
  up, formats the message, and appends; \<^verbatim>\<open>validation_results[k] += 1\<close> reads, adds and
  stores.
\<close>

definition append_error :: "pyval \<Rightarrow> (py_error + string) \<Rightarrow> py_error + pyval" where
  "append_error validation_results msg =
     and_then (py_getitem validation_results ''validation_errors'') (\<lambda>errors.
     and_then (py_append_method errors) (\<lambda>_.
     and_then msg (\<lambda>m.
     and_then (py_append errors (PStr m)) (\<lambda>errors'.
     py_setitem validation_results ''validation_errors'' errors'))))"

definition increment :: "pyval \<Rightarrow> string \<Rightarrow> py_error + pyval" where
  "increment validation_results k =
     and_then (py_getitem validation_results k) (\<lambda>c.
     and_then (py_add_int c 1) (\<lambda>c'.
     py_setitem validation_results k c'))"

text \<open>
  The body of the loop of \<^verbatim>\<open>validate_data\<close>. The first test is
  \<^verbatim>\<open>not user.get('user_id') or not user.get('full_name')\<close>, whose second operand is
  evaluated only when the first is false. The second message reads \<^verbatim>\<open>user['user_id']\<close>
  with a subscript, not with \<^verbatim>\<open>get\<close>.
\<close>

definition validate_user :: "pyval \<Rightarrow> pyval \<Rightarrow> py_error + pyval" where
  "validate_user user validation_results =
     and_then (py_get user ''user_id'') (\<lambda>user_id.
     and_then (if \<not> py_truthy user_id then Inr True
               else and_then (py_get user ''full_name'') (\<lambda>full_name.
                    Inr (\<not> py_truthy full_name))) (\<lambda>missing.
     and_then (if missing
               then and_then (append_error validation_results
                                (Inr (''Missing required fields for user: '' @ py_str user)))
                      (\<lambda>vr. Inr (vr, False))
               else Inr (validation_results, True)) (\<lambda>(vr1, is_valid1).
     and_then (py_get user ''email_domain'') (\<lambda>email_domain.
     and_then (if \<not> py_truthy email_domain
               then and_then (append_error vr1
                                (and_then (py_getitem user ''user_id'') (\<lambda>uid.
                                 Inr (''Missing email domain for user: '' @ py_str uid))))
                      (\<lambda>vr. Inr (vr, False))
               else Inr (vr1, is_valid1)) (\<lambda>(vr2, is_valid2).
     if is_valid2 then increment vr2 ''valid_records''
     else increment vr2 ''invalid_records'')))))"

fun validate_loop :: "pyval list \<Rightarrow> pyval \<Rightarrow> py_error + pyval" where
  "validate_loop [] validation_results = Inr validation_results"
| "validate_loop (user # rest) validation_results =
     and_then (validate_user user validation_results) (validate_loop rest)"

definition validate_data :: "pyval \<Rightarrow> pyval task" where
  "validate_data transformed_data =
     then_do (logging_info ''Starting data validation...'') (\<lambda>_.
     then_do (eval (py_getitem transformed_data ''transformed_users'')) (\<lambda>users.
     then_do (eval (py_len users)) (\<lambda>n.
     let validation_results = PDict [(''total_records'', PInt n), (''valid_records'', PInt 0),
           (''invalid_records'', PInt 0), (''validation_errors'', PList [])] in
     then_do (eval (py_iter users)) (\<lambda>us.
     then_do (eval (validate_loop us validation_results)) (\<lambda>validation_results.
     then_do (eval (py_getitem validation_results ''valid_records'')) (\<lambda>valid.
     then_do (eval (py_getitem validation_results ''invalid_records'')) (\<lambda>invalid.
     then_do (logging_info (''Validation complete: '' @ py_str valid @ '' valid, ''
                            @ py_str invalid @ '' invalid records'')) (\<lambda>_.
     return validation_results))))))))"

subsection \<open>Load\<close>

fun warn_each :: "pyval list \<Rightarrow> unit task" where
  "warn_each [] = return ()"
| "warn_each (error # rest) =
     then_do (logging_warning (''Validation error: '' @ py_str error)) (\<lambda>_. warn_each rest)"

definition load_data :: "pyval \<Rightarrow> pyval \<Rightarrow> pyval task" where
  "load_data transformed_data validation_results =
     then_do (logging_info ''Starting data loading...'') (\<lambda>_.
     then_do (eval (py_getitem validation_results ''invalid_records'')) (\<lambda>invalid.
     then_do (eval (py_gt_int invalid 0)) (\<lambda>some_invalid.
     then_do (if some_invalid
              then then_do (eval (py_getitem validation_results ''invalid_records'')) (\<lambda>invalid'.
                   then_do (logging_warning (''Found '' @ py_str invalid' @ '' invalid records'')) (\<lambda>_.
                   then_do (eval (py_getitem validation_results ''validation_errors'')) (\<lambda>errors.
                   then_do (eval (py_iter errors)) warn_each)))
              else return ()) (\<lambda>_.
     then_do (eval (py_getitem transformed_data ''transformed_users'')) (\<lambda>users_to_load.
     then_do (eval (py_len users_to_load)) (\<lambda>n.
     then_do datetime_now_isoformat (\<lambda>load_timestamp.
     let loading_summary = PDict [(''records_processed'', PInt n),
           (''load_timestamp'', load_timestamp), (''status'', PStr ''completed'')] in
     then_do (eval (py_len users_to_load)) (\<lambda>n'.
     then_do (logging_info (''Successfully loaded '' @ str_int n' @ '' records'')) (\<lambda>_.
     return loading_summary)))))))))"

subsection \<open>Notify\<close>

definition send_notification :: "pyval \<Rightarrow> pyval \<Rightarrow> pyval task" where
  "send_notification loading_summary validation_results =
     then_do (logging_info ''Sending completion notification...'') (\<lambda>_.
     then_do (eval (py_getitem loading_summary ''records_processed'')) (\<lambda>records_processed.
     then_do (eval (py_getitem validation_results ''valid_records'')) (\<lambda>valid.
     then_do (eval (py_getitem validation_results ''invalid_records'')) (\<lambda>invalid.
     then_do (eval (py_getitem loading_summary ''load_timestamp'')) (\<lambda>load_timestamp.
     then_do (eval (py_getitem loading_summary ''status'')) (\<lambda>status.
     let message =
           ''\<newline>        ETL Pipeline Completed Successfully!\<newline>''
         @ ''        \<newline>''
         @ ''        Summary:\<newline>''
         @ ''        - Records processed: '' @ py_str records_processed @ ''\<newline>''
         @ ''        - Valid records: '' @ py_str valid @ ''\<newline>''
         @ ''        - Invalid records: '' @ py_str invalid @ ''\<newline>''
         @ ''        - Completion time: '' @ py_str load_timestamp @ ''\<newline>''
         @ ''        - Status: '' @ py_str status @ ''\<newline>''
         @ ''        ''
     in
     then_do (logging_info message) (\<lambda>_.
     return (PStr ''Notification sent successfully''))))))))"

section \<open>The workflow\<close>

text \<open>
  The last five lines of the file call the tasks in order, each result feeding the next
  calls. The decorator \<^verbatim>\<open>@task()\<close> hands each function to the orchestration engine, which
  is not part of the file; the model runs the functions in the order of the calls, on the
  values that the calls pass. A call binds its positional arguments to the parameters of
  the function; with too few or too many of them it raises \<^verbatim>\<open>TypeError\<close> before the
  body starts.
\<close>

fun call0 :: "pyval task \<Rightarrow> pyval list \<Rightarrow> pyval task" where
  "call0 f [] = f"
| "call0 f _ = raise TypeError"

fun call1 :: "(pyval \<Rightarrow> pyval task) \<Rightarrow> pyval list \<Rightarrow> pyval task" where
  "call1 f [a] = f a"
| "call1 f _ = raise TypeError"

fun call2 :: "(pyval \<Rightarrow> pyval \<Rightarrow> pyval task) \<Rightarrow> pyval list \<Rightarrow> pyval task" where
  "call2 f [a, b] = f a b"
| "call2 f _ = raise TypeError"

definition dag :: "pyval task" where
  "dag =
     then_do (call0 extract_data []) (\<lambda>raw_data_res.
     then_do (call1 transform_data [raw_data_res]) (\<lambda>transformed_data_res.
     then_do (call1 validate_data [transformed_data_res]) (\<lambda>validate_data_res.
     then_do (call2 load_data [transformed_data_res, validate_data_res]) (\<lambda>loading_summary.
     call2 send_notification [loading_summary]))))"

section \<open>Shapes of the data passed between the tasks\<close>

fun has_key :: "pyval \<Rightarrow> string \<Rightarrow> bool" where
  "has_key (PDict kvs) k = (map_of kvs k \<noteq> None)"
| "has_key _ k = False"

fun is_int :: "pyval \<Rightarrow> bool" where
  "is_int (PInt i) = True"
| "is_int _ = False"

fun is_str :: "pyval \<Rightarrow> bool" where
  "is_str (PStr s) = True"
| "is_str _ = False"

fun is_list :: "pyval \<Rightarrow> bool" where
  "is_list (PList xs) = True"
| "is_list _ = False"

definition has_field :: "pyval \<Rightarrow> string \<Rightarrow> (pyval \<Rightarrow> bool) \<Rightarrow> bool" where
  "has_field d k P = (case py_getitem d k of Inl e \<Rightarrow> False | Inr v \<Rightarrow> P v)"

text \<open>A raw record: \<^verbatim>\<open>{id: integer, name: string, email: string}\<close>.\<close>

definition is_raw_record :: "pyval \<Rightarrow> bool" where
  "is_raw_record u \<longleftrightarrow>
     has_field u ''id'' is_int \<and> has_field u ''name'' is_str \<and> has_field u ''email'' is_str"

text \<open>A validation outcome: three counters and a list of errors.\<close>

definition is_validation_results :: "pyval \<Rightarrow> bool" where
  "is_validation_results vr \<longleftrightarrow>
     has_field vr ''total_records'' is_int \<and> has_field vr ''valid_records'' is_int \<and>
     has_field vr ''invalid_records'' is_int \<and> has_field vr ''validation_errors'' is_list"

text \<open>A load summary: a count, a timestamp and a status.\<close>

definition is_loading_summary :: "pyval \<Rightarrow> bool" where
  "is_loading_summary ls \<longleftrightarrow>
     has_field ls ''records_processed'' is_int \<and> has_field ls ''load_timestamp'' is_str \<and>
     has_field ls ''status'' is_str"

text \<open>The string stored under a key, and the value that \<^verbatim>\<open>get\<close> returns for it.\<close>

definition str_field :: "pyval \<Rightarrow> string \<Rightarrow> string" where
  "str_field d k = (case py_getitem d k of Inr (PStr s) \<Rightarrow> s | _ \<Rightarrow> [])"

definition field :: "pyval \<Rightarrow> string \<Rightarrow> pyval" where
  "field d k = (case py_get d k of Inr v \<Rightarrow> v | Inl e \<Rightarrow> PNone)"

subsection \<open>What Transform computes\<close>

text \<open>The part of a string between the first separator and the next one (or the end).\<close>

definition second_segment :: "char \<Rightarrow> string \<Rightarrow> string" where
  "second_segment c s = takeWhile (\<lambda>x. x \<noteq> c) (tl (dropWhile (\<lambda>x. x \<noteq> c) s))"

definition transformed :: "pyval \<Rightarrow> string \<Rightarrow> pyval" where
  "transformed u t =
     PDict [(''user_id'', field u ''id''),
            (''full_name'', PStr (map upper_char (str_field u ''name''))),
            (''email_domain'', PStr (second_segment (CHR ''@'') (str_field u ''email''))),
            (''processed_at'', PStr t)]"

fun transformed_from :: "(nat \<Rightarrow> string) \<Rightarrow> nat \<Rightarrow> pyval list \<Rightarrow> pyval list" where
  "transformed_from clk t [] = []"
| "transformed_from clk t (u # us) = transformed u (clk t) # transformed_from clk (Suc t) us"

subsection \<open>What Validate computes\<close>

definition vr_dict :: "int \<Rightarrow> int \<Rightarrow> int \<Rightarrow> pyval list \<Rightarrow> pyval" where
  "vr_dict t v i es =
     PDict [(''total_records'', PInt t), (''valid_records'', PInt v),
            (''invalid_records'', PInt i), (''validation_errors'', PList es)]"

definition missing_required :: "pyval \<Rightarrow> bool" where
  "missing_required u \<longleftrightarrow> \<not> py_truthy (field u ''user_id'') \<or> \<not> py_truthy (field u ''full_name'')"

definition missing_domain :: "pyval \<Rightarrow> bool" where
  "missing_domain u \<longleftrightarrow> \<not> py_truthy (field u ''email_domain'')"

definition user_valid :: "pyval \<Rightarrow> bool" where
  "user_valid u \<longleftrightarrow> \<not> missing_required u \<and> \<not> missing_domain u"

definition user_errors :: "pyval \<Rightarrow> pyval list" where
  "user_errors u =
     (if missing_required u then [PStr (''Missing required fields for user: '' @ py_str u)] else [])
     @ (if missing_domain u
        then [PStr (''Missing email domain for user: '' @ py_str (field u ''user_id''))] else [])"

subsection \<open>The built-in sample\<close>

definition sample_raw :: pyval where
  "sample_raw = PDict [(''users'', PList [
      PDict [(''id'', PInt 1), (''name'', PStr ''Alice''), (''email'', PStr ''alice@example.com'')],
      PDict [(''id'', PInt 2), (''name'', PStr ''Bob''), (''email'', PStr ''bob@example.com'')],
      PDict [(''id'', PInt 3), (''name'', PStr ''Charlie''), (''email'', PStr ''charlie@example.com'')]])]"

definition sample_transformed :: "world \<Rightarrow> pyval" where
  "sample_transformed w = PDict [(''transformed_users'', PList [
      PDict [(''user_id'', PInt 1), (''full_name'', PStr ''ALICE''),
             (''email_domain'', PStr ''example.com''), (''processed_at'', PStr (clock w (ticks w)))],
      PDict [(''user_id'', PInt 2), (''full_name'', PStr ''BOB''),
             (''email_domain'', PStr ''example.com''), (''processed_at'', PStr (clock w (Suc (ticks w))))],
      PDict [(''user_id'', PInt 3), (''full_name'', PStr ''CHARLIE''),
             (''email_domain'', PStr ''example.com''),
             (''processed_at'', PStr (clock w (Suc (Suc (ticks w)))))]])]"

definition sample_summary :: "world \<Rightarrow> pyval" where
  "sample_summary w = PDict [(''records_processed'', PInt 3),
     (''load_timestamp'', PStr (clock w (ticks w))), (''status'', PStr ''completed'')]"

text \<open>A world to run examples in: the clock reads \<^verbatim>\<open>t0\<close>, \<^verbatim>\<open>t1\<close>, ...\<close>

definition w0 :: world where
  "w0 = \<lparr>clock = (\<lambda>n. CHR ''t'' # str_int (int n)), ticks = 0, logged = [], heap = []\<rparr>"

subsection \<open>What Load logs\<close>

definition load_warnings :: "int \<Rightarrow> pyval list \<Rightarrow> string list" where
  "load_warnings i es =
     (if i > 0
      then (''Found '' @ str_int i @ '' invalid records'')
           # map (\<lambda>e. ''Validation error: '' @ py_str e) es
      else [])"

subsection \<open>Substrings after a separator\<close>

definition after_first :: "char \<Rightarrow> string \<Rightarrow> string" where
  "after_first c s = tl (dropWhile (\<lambda>x. x \<noteq> c) s)"

definition after_last :: "char \<Rightarrow> string \<Rightarrow> string" where
  "after_last c s = rev (takeWhile (\<lambda>x. x \<noteq> c) (rev s))"

subsection \<open>Example inputs\<close>

definition ann :: pyval where
  "ann = PDict [(''id'', PInt 7), (''name'', PStr ''Ann''), (''email'', PStr ''ann@a.org'')]"

definition bob_two_ats :: pyval where
  "bob_two_ats = PDict [(''id'', PInt 8), (''name'', PStr ''Bob''), (''email'', PStr ''bob@x@y'')]"

definition cy_no_at :: pyval where
  "cy_no_at = PDict [(''id'', PInt 9), (''name'', PStr ''Cy''), (''email'', PStr ''cy.example.com'')]"

definition zero_id :: pyval where
  "zero_id = PDict [(''user_id'', PInt 0), (''full_name'', PStr ''ANN''),
     (''email_domain'', PStr ''a.org''), (''processed_at'', PStr ''t0'')]"


definition no_domain :: pyval where
  "no_domain = PDict [(''user_id'', PInt 8), (''full_name'', PStr ''BOB''),
     (''email_domain'', PStr []), (''processed_at'', PStr ''t1'')]"

section \<open>The tasks on a heap\<close>

text \<open>
  A Python dictionary or list is an object, and a task that is handed one could change it
  in place. To state that Validate, Load and Notify do not, the three tasks are given a
  second time with their arguments and results by reference: an argument is the address of
  an object on the heap, each subscript reads the heap, each change in place
  (\<^verbatim>\<open>append\<close>, \<^verbatim>\<open>+=\<close>) writes it, and each dictionary display creates a new object.
  An object is stored whole, with the lists and dictionaries inside it.
\<close>

type_synonym addr = nat

definition heap_new :: "pyval \<Rightarrow> addr task" where
  "heap_new v = (\<lambda>w. (Inr (length (heap w)), w\<lparr>heap := heap w @ [v]\<rparr>))"

definition heap_read :: "addr \<Rightarrow> pyval task" where
  "heap_read a = (\<lambda>w. if a < length (heap w) then (Inr (heap w ! a), w) else (Inl SystemError, w))"

text \<open>A change in place: the object at the address is replaced by its changed value.\<close>

definition heap_modify :: "addr \<Rightarrow> (pyval \<Rightarrow> py_error + pyval) \<Rightarrow> unit task" where
  "heap_modify a f =
     (\<lambda>w. if a < length (heap w)
          then (case f (heap w ! a) of
                  Inl e \<Rightarrow> (Inl e, w)
                | Inr v \<Rightarrow> (Inr (), w\<lparr>heap := (heap w)[a := v]\<rparr>))
          else (Inl SystemError, w))"

text \<open>\<^verbatim>\<open>obj[key]\<close> where \<^verbatim>\<open>obj\<close> is a reference.\<close>

definition getitem_at :: "addr \<Rightarrow> string \<Rightarrow> pyval task" where
  "getitem_at a k = then_do (heap_read a) (\<lambda>d. eval (py_getitem d k))"

subsection \<open>Validate\<close>

definition validate_user_ref :: "pyval \<Rightarrow> addr \<Rightarrow> unit task" where
  "validate_user_ref user validation_results =
     then_do (eval (py_get user ''user_id'')) (\<lambda>user_id.
     then_do (if \<not> py_truthy user_id then return True
              else then_do (eval (py_get user ''full_name'')) (\<lambda>full_name.
                   return (\<not> py_truthy full_name))) (\<lambda>missing.
     then_do (if missing
              then then_do (heap_modify validation_results (\<lambda>vr.
                     append_error vr (Inr (''Missing required fields for user: '' @ py_str user))))
                     (\<lambda>_. return False)
              else return True) (\<lambda>is_valid1.
     then_do (eval (py_get user ''email_domain'')) (\<lambda>email_domain.
     then_do (if \<not> py_truthy email_domain
              then then_do (heap_modify validation_results (\<lambda>vr.
                     append_error vr
                       (and_then (py_getitem user ''user_id'') (\<lambda>uid.
                        Inr (''Missing email domain for user: '' @ py_str uid)))))
                     (\<lambda>_. return False)
              else return is_valid1) (\<lambda>is_valid2.
     if is_valid2 then heap_modify validation_results (\<lambda>vr. increment vr ''valid_records'')
     else heap_modify validation_results (\<lambda>vr. increment vr ''invalid_records''))))))"

fun validate_loop_ref :: "pyval list \<Rightarrow> addr \<Rightarrow> unit task" where
  "validate_loop_ref [] validation_results = return ()"
| "validate_loop_ref (user # rest) validation_results =
     then_do (validate_user_ref user validation_results) (\<lambda>_.
     validate_loop_ref rest validation_results)"

definition validate_data_ref :: "addr \<Rightarrow> addr task" where
  "validate_data_ref transformed_data =
     then_do (logging_info ''Starting data validation...'') (\<lambda>_.
     then_do (getitem_at transformed_data ''transformed_users'') (\<lambda>users.
     then_do (eval (py_len users)) (\<lambda>n.
     then_do (heap_new (PDict [(''total_records'', PInt n), (''valid_records'', PInt 0),
                (''invalid_records'', PInt 0), (''validation_errors'', PList [])]))
       (\<lambda>validation_results.
     then_do (eval (py_iter users)) (\<lambda>us.
     then_do (validate_loop_ref us validation_results) (\<lambda>_.
     then_do (getitem_at validation_results ''valid_records'') (\<lambda>valid.
     then_do (getitem_at validation_results ''invalid_records'') (\<lambda>invalid.
     then_do (logging_info (''Validation complete: '' @ py_str valid @ '' valid, ''
                            @ py_str invalid @ '' invalid records'')) (\<lambda>_.
     return validation_results)))))))))"

subsection \<open>Load\<close>

definition load_data_ref :: "addr \<Rightarrow> addr \<Rightarrow> addr task" where
  "load_data_ref transformed_data validation_results =
     then_do (logging_info ''Starting data loading...'') (\<lambda>_.
     then_do (getitem_at validation_results ''invalid_records'') (\<lambda>invalid.
     then_do (eval (py_gt_int invalid 0)) (\<lambda>some_invalid.
     then_do (if some_invalid
              then then_do (getitem_at validation_results ''invalid_records'') (\<lambda>invalid'.
                   then_do (logging_warning (''Found '' @ py_str invalid' @ '' invalid records'')) (\<lambda>_.
                   then_do (getitem_at validation_results ''validation_errors'') (\<lambda>errors.
                   then_do (eval (py_iter errors)) warn_each)))
              else return ()) (\<lambda>_.
     then_do (getitem_at transformed_data ''transformed_users'') (\<lambda>users_to_load.
     then_do (eval (py_len users_to_load)) (\<lambda>n.
     then_do datetime_now_isoformat (\<lambda>load_timestamp.
     then_do (heap_new (PDict [(''records_processed'', PInt n),
                (''load_timestamp'', load_timestamp), (''status'', PStr ''completed'')]))
       (\<lambda>loading_summary.
     then_do (eval (py_len users_to_load)) (\<lambda>n'.
     then_do (logging_info (''Successfully loaded '' @ str_int n' @ '' records'')) (\<lambda>_.
     return loading_summary))))))))))"

subsection \<open>Notify\<close>

definition send_notification_ref :: "addr \<Rightarrow> addr \<Rightarrow> pyval task" where
  "send_notification_ref loading_summary validation_results =
     then_do (logging_info ''Sending completion notification...'') (\<lambda>_.
     then_do (getitem_at loading_summary ''records_processed'') (\<lambda>records_processed.
     then_do (getitem_at validation_results ''valid_records'') (\<lambda>valid.
     then_do (getitem_at validation_results ''invalid_records'') (\<lambda>invalid.
     then_do (getitem_at loading_summary ''load_timestamp'') (\<lambda>load_timestamp.
     then_do (getitem_at loading_summary ''status'') (\<lambda>status.
     let message =
           ''\<newline>        ETL Pipeline Completed Successfully!\<newline>''
         @ ''        \<newline>''
         @ ''        Summary:\<newline>''
         @ ''        - Records processed: '' @ py_str records_processed @ ''\<newline>''
         @ ''        - Valid records: '' @ py_str valid @ ''\<newline>''
         @ ''        - Invalid records: '' @ py_str invalid @ ''\<newline>''
         @ ''        - Completion time: '' @ py_str load_timestamp @ ''\<newline>''
         @ ''        - Status: '' @ py_str status @ ''\<newline>''
         @ ''        ''
     in
     then_do (logging_info message) (\<lambda>_.
     return (PStr ''Notification sent successfully''))))))))"

subsection \<open>What a task leaves in place\<close>

text \<open>
  A task keeps the first \<^verbatim>\<open>n\<close> objects of the heap when, run on any heap that has them, it
  leaves each of them as it was, and removes none; \<^verbatim>\<open>Q\<close> is what is then known of its result.
\<close>

definition keeps :: "nat \<Rightarrow> ('a \<Rightarrow> bool) \<Rightarrow> 'a task \<Rightarrow> bool" where
  "keeps n Q m \<longleftrightarrow>
     (\<forall>w. n \<le> length (heap w) \<longrightarrow>
        take n (heap (snd (m w))) = take n (heap w)
        \<and> length (heap w) \<le> length (heap (snd (m w)))
        \<and> (\<forall>x. fst (m w) = Inr x \<longrightarrow> Q x))"

text \<open>A task only reads the heap when it leaves it as it found it.\<close>

definition reads_only :: "'a task \<Rightarrow> bool" where
  "reads_only m \<longleftrightarrow> (\<forall>w. heap (snd (m w)) = heap w)"

text \<open>A heap for examples: one transformed collection, its validation outcome, a load summary.\<close>

definition w1 :: world where
  "w1 = w0\<lparr>heap := [PDict [(''transformed_users'', PList [zero_id, no_domain])],
                    vr_dict 2 0 2 [PStr ''Missing email domain for user: 8''],
                    PDict [(''records_processed'', PInt 2), (''load_timestamp'', PStr ''t0''),
                           (''status'', PStr ''completed'')]]\<rparr>"

section \<open>Running tasks\<close>

lemma then_do_apply:
  "then_do m f w = (case m w of (Inl e, w') \<Rightarrow> (Inl e, w') | (Inr x, w') \<Rightarrow> f x w')"
  by (simp add: then_do_def)

lemma return_apply: "return x w = (Inr x, w)"
  by (simp add: return_def)

lemma raise_apply: "raise e w = (Inl e, w)"
  by (simp add: raise_def)

lemma eval_apply: "eval r w = (r, w)"
  by (cases r) (simp_all add: eval_def return_def raise_def)

lemma logging_info_apply:
  "logging_info msg w = (Inr (), w\<lparr>logged := logged w @ [(INFO, msg)]\<rparr>)"
  by (simp add: logging_info_def)

lemma logging_warning_apply:
  "logging_warning msg w = (Inr (), w\<lparr>logged := logged w @ [(WARNING, msg)]\<rparr>)"
  by (simp add: logging_warning_def)

lemma datetime_now_isoformat_apply:
  "datetime_now_isoformat w = (Inr (PStr (clock w (ticks w))), w\<lparr>ticks := Suc (ticks w)\<rparr>)"
  by (simp add: datetime_now_isoformat_def)

lemmas task_simps = then_do_apply return_apply raise_apply eval_apply logging_info_apply
  logging_warning_apply datetime_now_isoformat_apply

lemma and_then_Inr [simp]: "and_then (Inr x) f = f x"
  by (simp add: and_then_def)

lemma and_then_Inl [simp]: "and_then (Inl e) f = Inl e"
  by (simp add: and_then_def)

lemma str_int_0: "str_int 0 = ''0''"
  by (simp add: str_int_def digits_of.simps digit_char_def)

lemma str_int_1: "str_int 1 = ''1''"
  by (simp add: str_int_def digits_of.simps digit_char_def)

lemma str_int_2: "str_int 2 = ''2''"
  by (simp add: str_int_def digits_of.simps digit_char_def)

lemma str_int_3: "str_int 3 = ''3''"
  by (simp add: str_int_def digits_of.simps digit_char_def)

section \<open>The sample run, task by task\<close>

lemma extract_data_result:
  "extract_data w =
     (Inr sample_raw,
      w\<lparr>logged := logged w @ [(INFO, ''Starting data extraction...''),
                               (INFO, ''Extracted 3 user records'')]\<rparr>)"
  by (simp add: extract_data_def sample_raw_def task_simps str_int_3)

lemma transform_sample:
  "transform_data sample_raw w =
     (Inr (sample_transformed w),
      w\<lparr>ticks := Suc (Suc (Suc (ticks w))),
        logged := logged w @ [(INFO, ''Starting data transformation...''),
                               (INFO, ''Transformed 3 user records'')]\<rparr>)"
  by (simp add: task_simps sample_raw_def transform_data_def transform_user_def
      sample_transformed_def seq_index_def upper_char_def str_int_3)

lemma validate_sample:
  "validate_data (sample_transformed w') w =
     (Inr (vr_dict 3 3 0 []),
      w\<lparr>logged := logged w @ [(INFO, ''Starting data validation...''),
                               (INFO, ''Validation complete: 3 valid, 0 invalid records'')]\<rparr>)"
  by (simp add: task_simps validate_data_def validate_user_def increment_def
      sample_transformed_def vr_dict_def str_int_3 str_int_0)

lemma load_sample:
  "load_data (sample_transformed w') (vr_dict 3 3 0 []) w =
     (Inr (sample_summary w),
      w\<lparr>ticks := Suc (ticks w),
        logged := logged w @ [(INFO, ''Starting data loading...''),
                               (INFO, ''Successfully loaded 3 records'')]\<rparr>)"
  by (simp add: task_simps load_data_def sample_transformed_def vr_dict_def
      sample_summary_def str_int_3)

lemma notify_sample:
  "fst (send_notification (sample_summary w') (vr_dict 3 3 0 []) w) =
     Inr (PStr ''Notification sent successfully'')"
  by (simp add: task_simps send_notification_def vr_dict_def sample_summary_def)

section \<open>Splitting a string\<close>

lemma split_on_not_Nil: "split_on c s \<noteq> []"
  by (induction s) (auto split: list.splits)

lemma split_on_absent: "c \<notin> set s \<Longrightarrow> split_on c s = [s]"
  by (induction s) auto

lemma hd_split_on: "hd (split_on c s) = takeWhile (\<lambda>x. x \<noteq> c) s"
  by (induction s) (auto simp: split_on_not_Nil split: list.splits)

lemma split_on_present:
  "c \<in> set s \<Longrightarrow>
   split_on c s = takeWhile (\<lambda>x. x \<noteq> c) s # split_on c (tl (dropWhile (\<lambda>x. x \<noteq> c) s))"
proof (induction s)
  case Nil
  then show ?case by simp
next
  case (Cons x xs)
  show ?case
  proof (cases "x = c")
    case True
    then show ?thesis by simp
  next
    case False
    with Cons.prems have "c \<in> set xs" by simp
    with Cons.IH False show ?thesis by simp
  qed
qed

lemma split_on_second:
  assumes "c \<in> set s"
  shows "seq_index (map PStr (split_on c s)) 1 = Inr (PStr (second_segment c s))"
proof -
  obtain r rs where r: "split_on c (tl (dropWhile (\<lambda>x. x \<noteq> c) s)) = r # rs"
    using split_on_not_Nil by (cases "split_on c (tl (dropWhile (\<lambda>x. x \<noteq> c) s))") auto
  have "r = second_segment c s"
    using hd_split_on [of c "tl (dropWhile (\<lambda>x. x \<noteq> c) s)"] r
    by (simp add: second_segment_def)
  with r show ?thesis
    by (simp add: split_on_present [OF assms] seq_index_def)
qed

lemma split_on_no_second:
  "c \<notin> set s \<Longrightarrow> seq_index (map PStr (split_on c s)) 1 = Inl IndexError"
  by (simp add: split_on_absent seq_index_def)

lemma takeWhile_absent: "c \<notin> set s \<Longrightarrow> takeWhile (\<lambda>x. x \<noteq> c) s = s"
  by (induction s) auto

lemma count_list_zero_absent: "count_list s c = 0 \<Longrightarrow> c \<notin> set s"
  by (induction s) (auto split: if_splits)

lemma second_segment_single:
  "count_list s c = 1 \<Longrightarrow> second_segment c s = tl (dropWhile (\<lambda>x. x \<noteq> c) s)"
proof (induction s)
  case Nil
  then show ?case by simp
next
  case (Cons x xs)
  show ?case
  proof (cases "x = c")
    case True
    with Cons.prems have "count_list xs c = 0" by simp
    then have "c \<notin> set xs" by (rule count_list_zero_absent)
    then have "takeWhile (\<lambda>x. x \<noteq> c) xs = xs" by (rule takeWhile_absent)
    then have "second_segment c (c # xs) = tl (dropWhile (\<lambda>x. x \<noteq> c) (c # xs))"
      by (simp add: second_segment_def)
    with True show ?thesis by simp
  next
    case False
    with Cons.prems have "count_list xs c = 1" by simp
    then have "second_segment c xs = tl (dropWhile (\<lambda>x. x \<noteq> c) xs)" by (rule Cons.IH)
    moreover have "second_segment c (x # xs) = second_segment c xs"
      using False by (simp add: second_segment_def)
    moreover have "dropWhile (\<lambda>x. x \<noteq> c) (x # xs) = dropWhile (\<lambda>x. x \<noteq> c) xs"
      using False by simp
    ultimately show ?thesis by simp
  qed
qed

section \<open>Transform\<close>

lemma has_field_cases:
  assumes "has_field d k P"
  obtains v where "py_getitem d k = Inr v" "P v"
  using assms by (cases "py_getitem d k") (simp_all add: has_field_def)

lemma getitem_dict:
  assumes "py_getitem d k = Inr v"
  obtains kvs where "d = PDict kvs" "map_of kvs k = Some v"
  using assms by (cases d) (auto split: option.splits)

lemma getitem_get: "py_getitem d k = Inr v \<Longrightarrow> py_get d k = Inr v"
  by (erule getitem_dict) simp

lemma getitem_field: "py_getitem d k = Inr v \<Longrightarrow> field d k = v"
  by (simp add: field_def getitem_get)

lemma is_raw_record_fields:
  assumes "is_raw_record u"
  obtains i n e where "py_getitem u ''id'' = Inr (PInt i)" "py_getitem u ''name'' = Inr (PStr n)"
    "py_getitem u ''email'' = Inr (PStr e)"
proof -
  from assms have "has_field u ''id'' is_int" "has_field u ''name'' is_str"
      "has_field u ''email'' is_str"
    by (simp_all add: is_raw_record_def)
  then obtain a b c where f: "py_getitem u ''id'' = Inr a" "is_int a"
      "py_getitem u ''name'' = Inr b" "is_str b" "py_getitem u ''email'' = Inr c" "is_str c"
    by (elim has_field_cases) blast
  from f(2) obtain i where "a = PInt i" by (cases a) auto
  moreover from f(4) obtain n where "b = PStr n" by (cases b) auto
  moreover from f(6) obtain e where "c = PStr e" by (cases c) auto
  ultimately show ?thesis using f that by simp
qed

lemma transform_user_ok:
  assumes "is_raw_record u" "CHR ''@'' \<in> set (str_field u ''email'')"
  shows "transform_user u w = (Inr (transformed u (clock w (ticks w))), w\<lparr>ticks := Suc (ticks w)\<rparr>)"
proof -
  from assms(1) obtain i n e where f: "py_getitem u ''id'' = Inr (PInt i)"
      "py_getitem u ''name'' = Inr (PStr n)" "py_getitem u ''email'' = Inr (PStr e)"
    by (rule is_raw_record_fields)
  with assms(2) have "CHR ''@'' \<in> set e" by (simp add: str_field_def)
  then show ?thesis
    using f by (simp add: transform_user_def task_simps transformed_def str_field_def
        getitem_field split_on_second)
qed

lemma transform_user_fails:
  assumes "is_raw_record u" "CHR ''@'' \<notin> set (str_field u ''email'')"
  shows "transform_user u w = (Inl IndexError, w)"
proof -
  from assms(1) obtain i n e where f: "py_getitem u ''id'' = Inr (PInt i)"
      "py_getitem u ''name'' = Inr (PStr n)" "py_getitem u ''email'' = Inr (PStr e)"
    by (rule is_raw_record_fields)
  with assms(2) have "CHR ''@'' \<notin> set e" by (simp add: str_field_def)
  then show ?thesis
    using f by (simp add: transform_user_def task_simps split_on_no_second)
qed

lemma transform_loop_ok:
  assumes "\<forall>u\<in>set us. is_raw_record u \<and> CHR ''@'' \<in> set (str_field u ''email'')"
  shows "transform_loop us acc w =
           (Inr (acc @ transformed_from (clock w) (ticks w) us), w\<lparr>ticks := ticks w + length us\<rparr>)"
  using assms
proof (induction us arbitrary: acc w)
  case Nil
  then show ?case by (simp add: return_apply)
next
  case (Cons u us)
  then show ?case by (simp add: then_do_apply transform_user_ok)
qed

lemma transform_loop_fails:
  assumes "\<forall>u\<in>set us. is_raw_record u" "\<exists>u\<in>set us. CHR ''@'' \<notin> set (str_field u ''email'')"
  shows "\<exists>w'. transform_loop us acc w = (Inl IndexError, w')"
  using assms
proof (induction us arbitrary: acc w)
  case Nil
  then show ?case by simp
next
  case (Cons u us)
  show ?case
  proof (cases "CHR ''@'' \<in> set (str_field u ''email'')")
    case True
    with Cons.prems have "\<exists>u\<in>set us. CHR ''@'' \<notin> set (str_field u ''email'')" by auto
    moreover from Cons.prems(1) have "\<forall>u\<in>set us. is_raw_record u" by simp
    ultimately have "\<exists>w'. transform_loop us (acc @ [transformed u (clock w (ticks w))])
        (w\<lparr>ticks := Suc (ticks w)\<rparr>) = (Inl IndexError, w')"
      by (rule Cons.IH [rotated])
    with Cons.prems(1) True show ?thesis
      by (simp add: then_do_apply transform_user_ok)
  next
    case False
    with Cons.prems(1) show ?thesis
      by (simp add: then_do_apply transform_user_fails)
  qed
qed

lemma length_transformed_from: "length (transformed_from clk t us) = length us"
  by (induction us arbitrary: t) auto

lemma nth_transformed_from:
  "k < length us \<Longrightarrow> transformed_from clk t us ! k = transformed (us ! k) (clk (t + k))"
proof (induction us arbitrary: t k)
  case Nil
  then show ?case by simp
next
  case (Cons u us)
  then show ?case by (cases k) auto
qed

lemma transform_data_ok:
  assumes "py_getitem raw_data ''users'' = Inr (PList us)"
    "\<forall>u\<in>set us. is_raw_record u \<and> CHR ''@'' \<in> set (str_field u ''email'')"
  shows "transform_data raw_data w =
     (Inr (PDict [(''transformed_users'', PList (transformed_from (clock w) (ticks w) us))]),
      w\<lparr>ticks := ticks w + length us,
        logged := logged w @ [(INFO, ''Starting data transformation...''),
           (INFO, ''Transformed '' @ str_int (int (length us)) @ '' user records'')]\<rparr>)"
  using assms by (simp add: transform_data_def task_simps transform_loop_ok length_transformed_from)

lemma transform_data_fails:
  assumes "py_getitem raw_data ''users'' = Inr (PList us)"
    "\<forall>u\<in>set us. is_raw_record u" "\<exists>u\<in>set us. CHR ''@'' \<notin> set (str_field u ''email'')"
  shows "fst (transform_data raw_data w) = Inl IndexError"
proof -
  let ?w = "w\<lparr>logged := logged w @ [(INFO, ''Starting data transformation...'')]\<rparr>"
  obtain w' where "transform_loop us [] ?w = (Inl IndexError, w')"
    using transform_loop_fails [OF assms(2,3)] by blast
  then show ?thesis
    using assms(1) by (simp add: transform_data_def task_simps)
qed

section \<open>Validate\<close>

lemma has_key_cases:
  assumes "has_key u k"
  obtains kvs v where "u = PDict kvs" "map_of kvs k = Some v"
  using assms by (cases u) auto

lemma append_error_vr_dict:
  "append_error (vr_dict t v i es) (Inr m) = Inr (vr_dict t v i (es @ [PStr m]))"
  by (simp add: append_error_def vr_dict_def)

lemma increment_valid:
  "increment (vr_dict t v i es) ''valid_records'' = Inr (vr_dict t (v + 1) i es)"
  by (simp add: increment_def vr_dict_def)

lemma increment_invalid:
  "increment (vr_dict t v i es) ''invalid_records'' = Inr (vr_dict t v (i + 1) es)"
  by (simp add: increment_def vr_dict_def)

lemma validate_user_step:
  assumes "has_key u ''user_id''"
  shows "validate_user u (vr_dict t v i es) =
     Inr (vr_dict t (if user_valid u then v + 1 else v) (if user_valid u then i else i + 1)
            (es @ user_errors u))"
proof -
  from assms obtain kvs x where u: "u = PDict kvs" "map_of kvs ''user_id'' = Some x"
    by (rule has_key_cases)
  then have g: "py_get u ''user_id'' = Inr x" "py_getitem u ''user_id'' = Inr x"
      "field u ''user_id'' = x"
    by (simp_all add: field_def)
  obtain fn where fn: "py_get u ''full_name'' = Inr fn" "field u ''full_name'' = fn"
    using u(1) by (simp add: field_def)
  obtain ed where ed: "py_get u ''email_domain'' = Inr ed" "field u ''email_domain'' = ed"
    using u(1) by (simp add: field_def)
  show ?thesis
    unfolding validate_user_def
    by (simp add: g fn ed append_error_vr_dict increment_valid increment_invalid
        user_valid_def user_errors_def missing_required_def missing_domain_def)
qed

lemma validate_loop_result:
  assumes "\<forall>u\<in>set us. has_key u ''user_id''"
  shows "validate_loop us (vr_dict t v i es) =
     Inr (vr_dict t (v + int (length (filter user_valid us)))
            (i + int (length (filter (\<lambda>u. \<not> user_valid u) us)))
            (es @ concat (map user_errors us)))"
  using assms
proof (induction us arbitrary: v i es)
  case Nil
  then show ?case by simp
next
  case (Cons u us)
  then show ?case by (simp add: validate_user_step add.assoc)
qed

lemma validate_data_result:
  assumes "py_getitem transformed_data ''transformed_users'' = Inr (PList us)"
    "\<forall>u\<in>set us. has_key u ''user_id''"
  shows "validate_data transformed_data w =
     (Inr (vr_dict (int (length us)) (int (length (filter user_valid us)))
             (int (length (filter (\<lambda>u. \<not> user_valid u) us))) (concat (map user_errors us))),
      w\<lparr>logged := logged w @ [(INFO, ''Starting data validation...''),
          (INFO, ''Validation complete: '' @ str_int (int (length (filter user_valid us)))
             @ '' valid, '' @ str_int (int (length (filter (\<lambda>u. \<not> user_valid u) us)))
             @ '' invalid records'')]\<rparr>)"
proof -
  have "validate_loop us (vr_dict (int (length us)) 0 0 []) =
     Inr (vr_dict (int (length us)) (int (length (filter user_valid us)))
            (int (length (filter (\<lambda>u. \<not> user_valid u) us))) (concat (map user_errors us)))"
    using validate_loop_result [OF assms(2), of "int (length us)" 0 0 "[]"] by simp
  then have "validate_loop us (PDict [(''total_records'', PInt (int (length us))),
        (''valid_records'', PInt 0), (''invalid_records'', PInt 0),
        (''validation_errors'', PList [])]) =
     Inr (vr_dict (int (length us)) (int (length (filter user_valid us)))
            (int (length (filter (\<lambda>u. \<not> user_valid u) us))) (concat (map user_errors us)))"
    by (simp add: vr_dict_def)
  then show ?thesis
    using assms(1) by (simp add: validate_data_def task_simps vr_dict_def)
qed

lemma filter_split_length:
  "length (filter P xs) + length (filter (\<lambda>x. \<not> P x) xs) = length xs"
  by (induction xs) auto


section \<open>Load and Notify\<close>

lemma is_validation_results_fields:
  assumes "is_validation_results vr"
  obtains t v i es where "py_getitem vr ''total_records'' = Inr (PInt t)"
    "py_getitem vr ''valid_records'' = Inr (PInt v)"
    "py_getitem vr ''invalid_records'' = Inr (PInt i)"
    "py_getitem vr ''validation_errors'' = Inr (PList es)"
proof -
  from assms have "has_field vr ''total_records'' is_int" "has_field vr ''valid_records'' is_int"
      "has_field vr ''invalid_records'' is_int" "has_field vr ''validation_errors'' is_list"
    by (simp_all add: is_validation_results_def)
  then obtain a b c d where f: "py_getitem vr ''total_records'' = Inr a" "is_int a"
      "py_getitem vr ''valid_records'' = Inr b" "is_int b"
      "py_getitem vr ''invalid_records'' = Inr c" "is_int c"
      "py_getitem vr ''validation_errors'' = Inr d" "is_list d"
    by (elim has_field_cases) blast
  from f(2) obtain t where "a = PInt t" by (cases a) auto
  moreover from f(4) obtain v where "b = PInt v" by (cases b) auto
  moreover from f(6) obtain i where "c = PInt i" by (cases c) auto
  moreover from f(8) obtain es where "d = PList es" by (cases d) auto
  ultimately show ?thesis using f that by simp
qed

lemma is_loading_summary_fields:
  assumes "is_loading_summary ls"
  obtains n ts st where "py_getitem ls ''records_processed'' = Inr (PInt n)"
    "py_getitem ls ''load_timestamp'' = Inr (PStr ts)"
    "py_getitem ls ''status'' = Inr (PStr st)"
proof -
  from assms have "has_field ls ''records_processed'' is_int"
      "has_field ls ''load_timestamp'' is_str" "has_field ls ''status'' is_str"
    by (simp_all add: is_loading_summary_def)
  then obtain a b c where f: "py_getitem ls ''records_processed'' = Inr a" "is_int a"
      "py_getitem ls ''load_timestamp'' = Inr b" "is_str b"
      "py_getitem ls ''status'' = Inr c" "is_str c"
    by (elim has_field_cases) blast
  from f(2) obtain n where "a = PInt n" by (cases a) auto
  moreover from f(4) obtain ts where "b = PStr ts" by (cases b) auto
  moreover from f(6) obtain st where "c = PStr st" by (cases c) auto
  ultimately show ?thesis using f that by simp
qed

lemma warn_each_result:
  "warn_each es w =
     (Inr (), w\<lparr>logged := logged w @ map (\<lambda>e. (WARNING, ''Validation error: '' @ py_str e)) es\<rparr>)"
proof (induction es arbitrary: w)
  case Nil
  then show ?case by (simp add: return_apply)
next
  case (Cons e es)
  then show ?case by (simp add: then_do_apply logging_warning_apply)
qed

lemma load_data_result:
  assumes "py_getitem transformed_data ''transformed_users'' = Inr (PList us)"
    "py_getitem validation_results ''invalid_records'' = Inr (PInt i)"
    "py_getitem validation_results ''validation_errors'' = Inr (PList es)"
  shows "load_data transformed_data validation_results w =
     (Inr (PDict [(''records_processed'', PInt (int (length us))),
                  (''load_timestamp'', PStr (clock w (ticks w))),
                  (''status'', PStr ''completed'')]),
      w\<lparr>ticks := Suc (ticks w),
        logged := logged w @ [(INFO, ''Starting data loading...'')]
          @ map (Pair WARNING) (load_warnings i es)
          @ [(INFO, ''Successfully loaded '' @ str_int (int (length us)) @ '' records'')]\<rparr>)"
  using assms
  by (simp add: load_data_def task_simps warn_each_result load_warnings_def comp_def)

lemma send_notification_result:
  assumes "py_getitem loading_summary ''records_processed'' = Inr a"
    "py_getitem validation_results ''valid_records'' = Inr b"
    "py_getitem validation_results ''invalid_records'' = Inr c"
    "py_getitem loading_summary ''load_timestamp'' = Inr d"
    "py_getitem loading_summary ''status'' = Inr e"
  shows "fst (send_notification loading_summary validation_results w) =
     Inr (PStr ''Notification sent successfully'')"
  using assms by (simp add: send_notification_def task_simps)

section \<open>Validate after Transform\<close>

lemma has_key_transformed_from:
  "\<forall>u\<in>set (transformed_from clk t us). has_key u ''user_id''"
  by (induction us arbitrary: t) (simp_all add: transformed_def)

text \<open>Whatever Transform returns on raw records, Validate accepts.\<close>

lemma validate_after_transform:
  assumes "py_getitem raw_data ''users'' = Inr (PList us)"
    and "\<forall>u\<in>set us. is_raw_record u \<and> CHR ''@'' \<in> set (str_field u ''email'')"
  shows "\<exists>td w' vr. transform_data raw_data w = (Inr td, w') \<and> fst (validate_data td w') = Inr vr"
proof -
  let ?tus = "transformed_from (clock w) (ticks w) us"
  let ?td = "PDict [(''transformed_users'', PList ?tus)]"
  have "py_getitem ?td ''transformed_users'' = Inr (PList ?tus)"
    by simp
  from validate_data_result [OF this has_key_transformed_from] transform_data_ok [OF assms, of w]
  show ?thesis by simp
qed

section \<open>Extract\<close>

text \<open>
  C8. Extract takes no input and always returns exactly three raw records, whose identifiers
  are 1, 2 and 3: whatever the world it runs in, its result is a dictionary holding under
  \<^verbatim>\<open>users\<close> a list of length three, and reading \<^verbatim>\<open>id\<close> from its elements gives 1, 2, 3.
\<close>

theorem extract_data_three_records:
  "\<exists>users. fst (extract_data w) = Inr (PDict [(''users'', PList users)])
     \<and> length users = 3
     \<and> map (\<lambda>u. py_getitem u ''id'') users = [Inr (PInt 1), Inr (PInt 2), Inr (PInt 3)]
     \<and> (\<lambda>u. py_getitem u ''id'') ` set users = {Inr (PInt 1), Inr (PInt 2), Inr (PInt 3)}"
  by (simp add: extract_data_result sample_raw_def)

section \<open>The sample through Validate\<close>

text \<open>
  C7. Given the three sample records produced by Extract and passed through Transform,
  Validate reports three valid records, no invalid record and an empty list of errors.
\<close>

theorem validate_sample_counts:
  "fst (then_do extract_data (\<lambda>raw_data_res.
        then_do (transform_data raw_data_res) validate_data) w) =
   Inr (PDict [(''total_records'', PInt 3), (''valid_records'', PInt 3),
               (''invalid_records'', PInt 0), (''validation_errors'', PList [])])"
  by (simp add: then_do_apply extract_data_result transform_sample validate_sample vr_dict_def)

section \<open>The workflow as wired\<close>

text \<open>
  The first four calls of the workflow succeed on the sample and leave a load summary that
  counts three records.
\<close>

lemma first_four_steps:
  "then_do (call0 extract_data []) (\<lambda>raw_data_res.
   then_do (call1 transform_data [raw_data_res]) (\<lambda>transformed_data_res.
   then_do (call1 validate_data [transformed_data_res]) (\<lambda>validate_data_res.
   call2 load_data [transformed_data_res, validate_data_res]))) w =
   (Inr (sample_summary (w\<lparr>ticks := Suc (Suc (Suc (ticks w)))\<rparr>)),
    w\<lparr>ticks := Suc (Suc (Suc (Suc (ticks w)))),
      logged := logged w @
        [(INFO, ''Starting data extraction...''), (INFO, ''Extracted 3 user records''),
         (INFO, ''Starting data transformation...''), (INFO, ''Transformed 3 user records''),
         (INFO, ''Starting data validation...''),
         (INFO, ''Validation complete: 3 valid, 0 invalid records''),
         (INFO, ''Starting data loading...''), (INFO, ''Successfully loaded 3 records'')]\<rparr>)"
  by (simp add: then_do_apply extract_data_result transform_sample validate_sample load_sample
      sample_summary_def)

text \<open>
  Had the last call passed the validation outcome as well, the run would end with the
  confirmation string.
\<close>

lemma dag_with_both_arguments:
  "fst (then_do (call0 extract_data []) (\<lambda>raw_data_res.
        then_do (call1 transform_data [raw_data_res]) (\<lambda>transformed_data_res.
        then_do (call1 validate_data [transformed_data_res]) (\<lambda>validate_data_res.
        then_do (call2 load_data [transformed_data_res, validate_data_res]) (\<lambda>loading_summary.
        call2 send_notification [loading_summary, validate_data_res])))) w) =
   Inr (PStr ''Notification sent successfully'')"
  by (simp add: then_do_apply extract_data_result transform_sample validate_sample load_sample
      notify_sample)

text \<open>
  C1. The claim is that the five-step chain, run on the sample, ends with the notification
  string \<^verbatim>\<open>Notification sent successfully\<close>. As the file wires it, the last call gives
  \<^verbatim>\<open>send_notification\<close> one argument for its two parameters, so the run ends in a
  \<^verbatim>\<open>TypeError\<close> and no notification string is produced.
\<close>

theorem dag_raises_TypeError:
  "fst (dag w) = Inl TypeError \<and> fst (dag w) \<noteq> Inr (PStr ''Notification sent successfully'')"
  by (simp add: dag_def then_do_apply raise_apply extract_data_result transform_sample
      validate_sample load_sample)

text \<open>
  C2. The claim is that the Notify step is invoked with the load summary and the validation
  outcome. The call in the file passes the load summary alone: whatever that summary is,
  the call raises \<^verbatim>\<open>TypeError\<close> and leaves the world as it was, the body of
  \<^verbatim>\<open>send_notification\<close> not being entered; and the log of a run of the workflow ends
  with the last line of Load.
\<close>

theorem notify_call_one_argument:
  "call2 send_notification [loading_summary] w = (Inl TypeError, w)
   \<and> logged (snd (dag w)) = logged w @
        [(INFO, ''Starting data extraction...''), (INFO, ''Extracted 3 user records''),
         (INFO, ''Starting data transformation...''), (INFO, ''Transformed 3 user records''),
         (INFO, ''Starting data validation...''),
         (INFO, ''Validation complete: 3 valid, 0 invalid records''),
         (INFO, ''Starting data loading...''), (INFO, ''Successfully loaded 3 records'')]"
  by (simp add: dag_def then_do_apply raise_apply extract_data_result transform_sample
      validate_sample load_sample)

section \<open>Transform: the fields of a transformed record\<close>

text \<open>
  C3, as the code has it. For every raw record whose email contains an \<^verbatim>\<open>@\<close>, the
  transformed record has \<^verbatim>\<open>full_name\<close> equal to the upper case of the input name, and
  \<^verbatim>\<open>email_domain\<close> equal to the part of the email between the first \<^verbatim>\<open>@\<close> and the next
  one (or the end of the email); when the email contains exactly one \<^verbatim>\<open>@\<close>, that is the
  substring after it.
\<close>

theorem transform_data_fields:
  assumes "py_getitem raw_data ''users'' = Inr (PList users)"
    and "\<forall>u\<in>set users. is_raw_record u \<and> CHR ''@'' \<in> set (str_field u ''email'')"
  shows "\<exists>tus. fst (transform_data raw_data w) = Inr (PDict [(''transformed_users'', PList tus)])
     \<and> length tus = length users
     \<and> (\<forall>k<length users.
          py_getitem (tus ! k) ''full_name'' = and_then (py_getitem (users ! k) ''name'') py_upper
        \<and> py_getitem (tus ! k) ''email_domain'' =
            Inr (PStr (second_segment (CHR ''@'') (str_field (users ! k) ''email'')))
        \<and> (count_list (str_field (users ! k) ''email'') (CHR ''@'') = 1 \<longrightarrow>
            py_getitem (tus ! k) ''email_domain'' =
              Inr (PStr (after_first (CHR ''@'') (str_field (users ! k) ''email'')))))"
proof -
  let ?tus = "transformed_from (clock w) (ticks w) users"
  have res: "fst (transform_data raw_data w) = Inr (PDict [(''transformed_users'', PList ?tus)])"
    using transform_data_ok [OF assms] by simp
  have len: "length ?tus = length users"
    by (rule length_transformed_from)
  have fields: "py_getitem (?tus ! k) ''full_name'' = and_then (py_getitem (users ! k) ''name'') py_upper
        \<and> py_getitem (?tus ! k) ''email_domain'' =
            Inr (PStr (second_segment (CHR ''@'') (str_field (users ! k) ''email'')))
        \<and> (count_list (str_field (users ! k) ''email'') (CHR ''@'') = 1 \<longrightarrow>
            py_getitem (?tus ! k) ''email_domain'' =
              Inr (PStr (after_first (CHR ''@'') (str_field (users ! k) ''email''))))"
    if k: "k < length users" for k
  proof -
    from k assms(2) have "is_raw_record (users ! k)" by simp
    then obtain i n e where f: "py_getitem (users ! k) ''id'' = Inr (PInt i)"
        "py_getitem (users ! k) ''name'' = Inr (PStr n)"
        "py_getitem (users ! k) ''email'' = Inr (PStr e)"
      by (rule is_raw_record_fields)
    have nth: "?tus ! k = transformed (users ! k) (clock w (ticks w + k))"
      using k by (rule nth_transformed_from)
    show ?thesis
      by (simp add: nth transformed_def f str_field_def after_first_def
          second_segment_single [unfolded second_segment_def] second_segment_def)
  qed
  from res len fields show ?thesis by blast
qed

theorem transform_data_fields_witness:
  "py_getitem (PDict [(''users'', PList [ann, bob_two_ats])]) ''users'' = Inr (PList [ann, bob_two_ats])
   \<and> is_raw_record ann \<and> CHR ''@'' \<in> set (str_field ann ''email'')
   \<and> is_raw_record bob_two_ats \<and> CHR ''@'' \<in> set (str_field bob_two_ats ''email'')
   \<and> (\<exists>tus. fst (transform_data (PDict [(''users'', PList [ann, bob_two_ats])]) w0) =
              Inr (PDict [(''transformed_users'', PList tus)])
        \<and> length tus = 2
        \<and> py_getitem (tus ! 0) ''full_name'' = Inr (PStr ''ANN'')
        \<and> py_getitem (tus ! 0) ''email_domain'' = Inr (PStr ''a.org'')
        \<and> py_getitem (tus ! 1) ''full_name'' = Inr (PStr ''BOB'')
        \<and> py_getitem (tus ! 1) ''email_domain'' = Inr (PStr ''x''))"
proof -
  have h1: "py_getitem (PDict [(''users'', PList [ann, bob_two_ats])]) ''users''
      = Inr (PList [ann, bob_two_ats])"
    by simp
  have h2: "is_raw_record ann \<and> CHR ''@'' \<in> set (str_field ann ''email'')"
    by (simp add: ann_def is_raw_record_def has_field_def str_field_def)
  have h3: "is_raw_record bob_two_ats \<and> CHR ''@'' \<in> set (str_field bob_two_ats ''email'')"
    by (simp add: bob_two_ats_def is_raw_record_def has_field_def str_field_def)
  from h2 h3 have h: "\<forall>u\<in>set [ann, bob_two_ats].
      is_raw_record u \<and> CHR ''@'' \<in> set (str_field u ''email'')"
    by simp
  from transform_data_fields [OF h1 h, of w0] obtain tus where
    t: "fst (transform_data (PDict [(''users'', PList [ann, bob_two_ats])]) w0) =
          Inr (PDict [(''transformed_users'', PList tus)])"
      "length tus = length [ann, bob_two_ats]"
      "\<forall>k<length [ann, bob_two_ats].
          py_getitem (tus ! k) ''full_name'' = and_then (py_getitem ([ann, bob_two_ats] ! k) ''name'') py_upper
        \<and> py_getitem (tus ! k) ''email_domain'' =
            Inr (PStr (second_segment (CHR ''@'') (str_field ([ann, bob_two_ats] ! k) ''email'')))"
    by blast
  from t(3) have "py_getitem (tus ! 0) ''full_name'' = and_then (py_getitem ann ''name'') py_upper"
      "py_getitem (tus ! 0) ''email_domain'' = Inr (PStr (second_segment (CHR ''@'') (str_field ann ''email'')))"
      "py_getitem (tus ! 1) ''full_name'' = and_then (py_getitem bob_two_ats ''name'') py_upper"
      "py_getitem (tus ! 1) ''email_domain'' =
         Inr (PStr (second_segment (CHR ''@'') (str_field bob_two_ats ''email'')))"
    by simp_all
  then have "py_getitem (tus ! 0) ''full_name'' = Inr (PStr ''ANN'')"
      "py_getitem (tus ! 0) ''email_domain'' = Inr (PStr ''a.org'')"
      "py_getitem (tus ! 1) ''full_name'' = Inr (PStr ''BOB'')"
      "py_getitem (tus ! 1) ''email_domain'' = Inr (PStr ''x'')"
    by (simp_all add: ann_def bob_two_ats_def upper_char_def second_segment_def str_field_def)
  with t(1,2) h1 h2 h3 show ?thesis by simp
qed

text \<open>
  C3, as stated, fails for an email with two \<^verbatim>\<open>@\<close>: for \<^verbatim>\<open>bob@x@y\<close> the domain is
  \<^verbatim>\<open>x\<close>, which is neither what follows the first \<^verbatim>\<open>@\<close> nor what follows the last.
\<close>

theorem transform_two_ats_counterexample:
  "is_raw_record bob_two_ats
   \<and> CHR ''@'' \<in> set (str_field bob_two_ats ''email'')
   \<and> fst (transform_data (PDict [(''users'', PList [bob_two_ats])]) w0) =
       Inr (PDict [(''transformed_users'', PList [
         PDict [(''user_id'', PInt 8), (''full_name'', PStr ''BOB''),
                (''email_domain'', PStr ''x''), (''processed_at'', PStr ''t0'')]])])
   \<and> after_first (CHR ''@'') (str_field bob_two_ats ''email'') = ''x@y''
   \<and> after_last (CHR ''@'') (str_field bob_two_ats ''email'') = ''y''
   \<and> ''x'' \<noteq> after_first (CHR ''@'') (str_field bob_two_ats ''email'')
   \<and> ''x'' \<noteq> after_last (CHR ''@'') (str_field bob_two_ats ''email'')"
  by (simp add: bob_two_ats_def is_raw_record_def has_field_def str_field_def
      transform_data_def transform_user_def task_simps seq_index_def upper_char_def
      after_first_def after_last_def w0_def str_int_0 str_int_1)

section \<open>Validate: the counters\<close>

text \<open>
  C5. For every input collection of transformed records, Validate returns, and in its
  result \<^verbatim>\<open>valid_records + invalid_records = total_records\<close>, which is the length of the
  collection. The records need only be dictionaries that have a \<^verbatim>\<open>user_id\<close> key, as every
  transformed record is.
\<close>

theorem validate_counts_add_up:
  assumes "py_getitem transformed_data ''transformed_users'' = Inr (PList users)"
    and "\<forall>u\<in>set users. has_key u ''user_id''"
  shows "\<exists>valid invalid errors.
       fst (validate_data transformed_data w) =
         Inr (PDict [(''total_records'', PInt (int (length users))), (''valid_records'', PInt valid),
                     (''invalid_records'', PInt invalid), (''validation_errors'', PList errors)])
     \<and> valid + invalid = int (length users) \<and> 0 \<le> valid \<and> 0 \<le> invalid"
proof -
  let ?v = "int (length (filter user_valid users))"
  let ?i = "int (length (filter (\<lambda>u. \<not> user_valid u) users))"
  have "fst (validate_data transformed_data w) =
      Inr (vr_dict (int (length users)) ?v ?i (concat (map user_errors users)))"
    using validate_data_result [OF assms] by simp
  moreover have "?v + ?i = int (length users)"
    using filter_split_length [of user_valid users] by linarith
  ultimately show ?thesis
    unfolding vr_dict_def by fastforce
qed

theorem validate_counts_add_up_witness:
  "py_getitem (PDict [(''transformed_users'', PList [zero_id, no_domain])]) ''transformed_users''
     = Inr (PList [zero_id, no_domain])
   \<and> has_key zero_id ''user_id'' \<and> has_key no_domain ''user_id''
   \<and> (\<exists>valid invalid errors.
        fst (validate_data (PDict [(''transformed_users'', PList [zero_id, no_domain])]) w0) =
          Inr (PDict [(''total_records'', PInt 2), (''valid_records'', PInt valid),
                      (''invalid_records'', PInt invalid), (''validation_errors'', PList errors)])
        \<and> valid + invalid = 2)"
proof -
  have h1: "py_getitem (PDict [(''transformed_users'', PList [zero_id, no_domain])])
      ''transformed_users'' = Inr (PList [zero_id, no_domain])"
    by simp
  have h2: "has_key zero_id ''user_id''" "has_key no_domain ''user_id''"
    by (simp_all add: zero_id_def no_domain_def)
  then have h: "\<forall>u\<in>set [zero_id, no_domain]. has_key u ''user_id''"
    by simp
  from validate_counts_add_up [OF h1 h, of w0] h1 h2 show ?thesis
    by auto
qed

section \<open>Validate: truthiness\<close>



section \<open>Load\<close>

text \<open>
  C6. For every transformed-data input and every validation outcome, Load returns a
  summary whose \<^verbatim>\<open>records_processed\<close> is the length of the transformed-data input and whose
  \<^verbatim>\<open>status\<close> is \<^verbatim>\<open>completed\<close>. The validation outcome does not gate loading: the summary
  does not depend on it. What it decides is the log: between its first and last lines, Load
  writes nothing when the outcome counts no invalid record, and otherwise one warning with
  the count and one warning for each validation error, in order.
\<close>

theorem load_data_summary:
  assumes "py_getitem transformed_data ''transformed_users'' = Inr (PList users)"
    and "is_validation_results validation_results"
  shows "fst (load_data transformed_data validation_results w) =
       Inr (PDict [(''records_processed'', PInt (int (length users))),
                   (''load_timestamp'', PStr (clock w (ticks w))),
                   (''status'', PStr ''completed'')])
     \<and> (\<exists>i es. py_getitem validation_results ''invalid_records'' = Inr (PInt i)
          \<and> py_getitem validation_results ''validation_errors'' = Inr (PList es)
          \<and> logged (snd (load_data transformed_data validation_results w)) =
              logged w @ [(INFO, ''Starting data loading...'')]
              @ map (Pair WARNING) (load_warnings i es)
              @ [(INFO, ''Successfully loaded '' @ str_int (int (length users)) @ '' records'')])"
proof -
  from assms(2) obtain t v i es where
    f: "py_getitem validation_results ''invalid_records'' = Inr (PInt i)"
      "py_getitem validation_results ''validation_errors'' = Inr (PList es)"
    by (rule is_validation_results_fields)
  have "logged (snd (load_data transformed_data validation_results w)) =
      logged w @ [(INFO, ''Starting data loading...'')]
      @ map (Pair WARNING) (load_warnings i es)
      @ [(INFO, ''Successfully loaded '' @ str_int (int (length users)) @ '' records'')]"
    by (simp add: load_data_result [OF assms(1) f])
  moreover have "fst (load_data transformed_data validation_results w) =
       Inr (PDict [(''records_processed'', PInt (int (length users))),
                   (''load_timestamp'', PStr (clock w (ticks w))),
                   (''status'', PStr ''completed'')])"
    by (simp add: load_data_result [OF assms(1) f])
  ultimately show ?thesis
    using f by blast
qed

theorem load_data_summary_witness:
  "py_getitem (PDict [(''transformed_users'', PList [zero_id, no_domain])]) ''transformed_users''
     = Inr (PList [zero_id, no_domain])
   \<and> is_validation_results (vr_dict 2 0 2 [PStr ''Missing email domain for user: 8''])
   \<and> fst (load_data (PDict [(''transformed_users'', PList [zero_id, no_domain])])
             (vr_dict 2 0 2 [PStr ''Missing email domain for user: 8'']) w0) =
       Inr (PDict [(''records_processed'', PInt 2), (''load_timestamp'', PStr ''t0''),
                   (''status'', PStr ''completed'')])
   \<and> logged (snd (load_data (PDict [(''transformed_users'', PList [zero_id, no_domain])])
             (vr_dict 2 0 2 [PStr ''Missing email domain for user: 8'']) w0)) =
       [(INFO, ''Starting data loading...''),
        (WARNING, ''Found 2 invalid records''),
        (WARNING, ''Validation error: Missing email domain for user: 8''),
        (INFO, ''Successfully loaded 2 records'')]"
proof -
  have h1: "py_getitem (PDict [(''transformed_users'', PList [zero_id, no_domain])])
      ''transformed_users'' = Inr (PList [zero_id, no_domain])"
    by simp
  have h2: "is_validation_results (vr_dict 2 0 2 [PStr ''Missing email domain for user: 8''])"
    by (simp add: is_validation_results_def has_field_def vr_dict_def)
  from load_data_summary [OF h1 h2, of w0] obtain i es where
    r: "fst (load_data (PDict [(''transformed_users'', PList [zero_id, no_domain])])
             (vr_dict 2 0 2 [PStr ''Missing email domain for user: 8'']) w0) =
       Inr (PDict [(''records_processed'', PInt (int (length [zero_id, no_domain]))),
                   (''load_timestamp'', PStr (clock w0 (ticks w0))),
                   (''status'', PStr ''completed'')])"
    and g: "py_getitem (vr_dict 2 0 2 [PStr ''Missing email domain for user: 8''])
              ''invalid_records'' = Inr (PInt i)"
      "py_getitem (vr_dict 2 0 2 [PStr ''Missing email domain for user: 8''])
              ''validation_errors'' = Inr (PList es)"
    and l: "logged (snd (load_data (PDict [(''transformed_users'', PList [zero_id, no_domain])])
             (vr_dict 2 0 2 [PStr ''Missing email domain for user: 8'']) w0)) =
       logged w0 @ [(INFO, ''Starting data loading...'')]
       @ map (Pair WARNING) (load_warnings i es)
       @ [(INFO, ''Successfully loaded '' @ str_int (int (length [zero_id, no_domain]))
           @ '' records'')]"
    by blast
  from g have "i = 2" "es = [PStr ''Missing email domain for user: 8'']"
    by (simp_all add: vr_dict_def)
  with l have "logged (snd (load_data (PDict [(''transformed_users'', PList [zero_id, no_domain])])
             (vr_dict 2 0 2 [PStr ''Missing email domain for user: 8'']) w0)) =
       [(INFO, ''Starting data loading...''),
        (WARNING, ''Found 2 invalid records''),
        (WARNING, ''Validation error: Missing email domain for user: 8''),
        (INFO, ''Successfully loaded 2 records'')]"
    by (simp add: load_warnings_def w0_def str_int_2)
  with r h1 h2 show ?thesis
    by (simp add: w0_def str_int_0)
qed

section \<open>The one failure\<close>

text \<open>
  On the data of the data model the tasks behave as follows. On raw records (an integer
  id, a string name, a string email), Transform raises \<^verbatim>\<open>IndexError\<close> if and only if the
  email of some record has no \<^verbatim>\<open>@\<close>, and returns otherwise. Extract always returns;
  Validate returns on every collection of dictionaries that have a \<^verbatim>\<open>user_id\<close> key; Load
  returns on every such collection and every validation outcome; Notify returns on every
  load summary and every validation outcome.
\<close>

lemma only_transform_fails_on_data_model:
  assumes "py_getitem raw_data ''users'' = Inr (PList users)"
    and "\<forall>u\<in>set users. is_raw_record u"
    and "py_getitem transformed_data ''transformed_users'' = Inr (PList transformed_users)"
    and "\<forall>u\<in>set transformed_users. has_key u ''user_id''"
    and "is_validation_results validation_results"
    and "is_loading_summary loading_summary"
  shows "(fst (transform_data raw_data w) = Inl IndexError
            \<longleftrightarrow> (\<exists>u\<in>set users. CHR ''@'' \<notin> set (str_field u ''email'')))
     \<and> ((\<exists>r. fst (transform_data raw_data w) = Inr r)
            \<longleftrightarrow> (\<forall>u\<in>set users. CHR ''@'' \<in> set (str_field u ''email'')))
     \<and> (\<exists>r. fst (extract_data w) = Inr r)
     \<and> (\<exists>r. fst (validate_data transformed_data w) = Inr r)
     \<and> (\<exists>r. fst (load_data transformed_data validation_results w) = Inr r)
     \<and> (\<exists>r. fst (send_notification loading_summary validation_results w) = Inr r)"
proof -
  have fails: "fst (transform_data raw_data w) = Inl IndexError"
    if "\<exists>u\<in>set users. CHR ''@'' \<notin> set (str_field u ''email'')"
    using assms(1,2) that by (rule transform_data_fails)
  have returns: "\<exists>r. fst (transform_data raw_data w) = Inr r"
    if "\<forall>u\<in>set users. CHR ''@'' \<in> set (str_field u ''email'')"
  proof -
    from that assms(2) have "\<forall>u\<in>set users. is_raw_record u \<and> CHR ''@'' \<in> set (str_field u ''email'')"
      by simp
    from transform_data_ok [OF assms(1) this, of w] show ?thesis by simp
  qed
  have extract_ok: "\<exists>r. fst (extract_data w) = Inr r"
    by (simp add: extract_data_result)
  have validate_ok: "\<exists>r. fst (validate_data transformed_data w) = Inr r"
    using validate_data_result [OF assms(3,4), of w] by simp
  from assms(5) obtain t v i es where
    vr: "py_getitem validation_results ''total_records'' = Inr (PInt t)"
      "py_getitem validation_results ''valid_records'' = Inr (PInt v)"
      "py_getitem validation_results ''invalid_records'' = Inr (PInt i)"
      "py_getitem validation_results ''validation_errors'' = Inr (PList es)"
    by (rule is_validation_results_fields)
  from assms(6) obtain n ts st where
    ls: "py_getitem loading_summary ''records_processed'' = Inr (PInt n)"
      "py_getitem loading_summary ''load_timestamp'' = Inr (PStr ts)"
      "py_getitem loading_summary ''status'' = Inr (PStr st)"
    by (rule is_loading_summary_fields)
  have load_ok: "\<exists>r. fst (load_data transformed_data validation_results w) = Inr r"
    using load_data_result [OF assms(3) vr(3,4), of w] by simp
  have notify_ok: "\<exists>r. fst (send_notification loading_summary validation_results w) = Inr r"
    using send_notification_result [OF ls(1) vr(2,3) ls(2,3), of w] by simp
  have iff1: "fst (transform_data raw_data w) = Inl IndexError
            \<longleftrightarrow> (\<exists>u\<in>set users. CHR ''@'' \<notin> set (str_field u ''email''))"
    using fails returns by (metis Inl_Inr_False)
  have iff2: "(\<exists>r. fst (transform_data raw_data w) = Inr r)
            \<longleftrightarrow> (\<forall>u\<in>set users. CHR ''@'' \<in> set (str_field u ''email''))"
    using fails returns by (metis Inl_Inr_False)
  from iff1 iff2 extract_ok validate_ok load_ok notify_ok show ?thesis
    by (intro conjI)
qed

lemma only_transform_fails_on_data_model_example:
  "py_getitem (PDict [(''users'', PList [ann, cy_no_at])]) ''users'' = Inr (PList [ann, cy_no_at])
   \<and> is_raw_record ann \<and> is_raw_record cy_no_at
   \<and> py_getitem (PDict [(''transformed_users'', PList [zero_id, no_domain])]) ''transformed_users''
       = Inr (PList [zero_id, no_domain])
   \<and> has_key zero_id ''user_id'' \<and> has_key no_domain ''user_id''
   \<and> is_validation_results (vr_dict 2 0 2 [PStr ''Missing email domain for user: 8''])
   \<and> is_loading_summary (sample_summary w0)
   \<and> CHR ''@'' \<notin> set (str_field cy_no_at ''email'')
   \<and> fst (transform_data (PDict [(''users'', PList [ann, cy_no_at])]) w0) = Inl IndexError
   \<and> (\<exists>r. fst (validate_data (PDict [(''transformed_users'', PList [zero_id, no_domain])]) w0) = Inr r)
   \<and> (\<exists>r. fst (load_data (PDict [(''transformed_users'', PList [zero_id, no_domain])])
                  (vr_dict 2 0 2 [PStr ''Missing email domain for user: 8'']) w0) = Inr r)
   \<and> (\<exists>r. fst (send_notification (sample_summary w0)
                  (vr_dict 2 0 2 [PStr ''Missing email domain for user: 8'']) w0) = Inr r)"
proof -
  have h1: "py_getitem (PDict [(''users'', PList [ann, cy_no_at])]) ''users''
      = Inr (PList [ann, cy_no_at])"
    by simp
  have h2: "is_raw_record ann" "is_raw_record cy_no_at"
    by (simp_all add: ann_def cy_no_at_def is_raw_record_def has_field_def)
  then have h2': "\<forall>u\<in>set [ann, cy_no_at]. is_raw_record u"
    by simp
  have h3: "py_getitem (PDict [(''transformed_users'', PList [zero_id, no_domain])])
      ''transformed_users'' = Inr (PList [zero_id, no_domain])"
    by simp
  have h4: "has_key zero_id ''user_id''" "has_key no_domain ''user_id''"
    by (simp_all add: zero_id_def no_domain_def)
  then have h4': "\<forall>u\<in>set [zero_id, no_domain]. has_key u ''user_id''"
    by simp
  have h5: "is_validation_results (vr_dict 2 0 2 [PStr ''Missing email domain for user: 8''])"
    by (simp add: is_validation_results_def has_field_def vr_dict_def)
  have h6: "is_loading_summary (sample_summary w0)"
    by (simp add: is_loading_summary_def has_field_def sample_summary_def)
  have h7: "CHR ''@'' \<notin> set (str_field cy_no_at ''email'')"
    by (simp add: cy_no_at_def str_field_def)
  from only_transform_fails_on_data_model [OF h1 h2' h3 h4' h5 h6, of w0] h1 h2 h3 h4 h5 h6 h7
  show ?thesis
    by simp
qed


text \<open>With the key present, the same record is counted as invalid and Validate returns.\<close>

lemma validate_data_with_user_id:
  "fst (validate_data (PDict [(''transformed_users'', PList [no_domain])]) w) =
     Inr (vr_dict 1 0 1 [PStr ''Missing email domain for user: 8''])"
  by (simp add: validate_data_def task_simps no_domain_def validate_user_def append_error_def
      increment_def vr_dict_def str_int_def digits_of.simps digit_char_def)

section \<open>What the tasks leave in place\<close>

lemma keepsI:
  assumes "\<And>w. n \<le> length (heap w) \<Longrightarrow> take n (heap (snd (m w))) = take n (heap w)"
    and "\<And>w. n \<le> length (heap w) \<Longrightarrow> length (heap w) \<le> length (heap (snd (m w)))"
    and "\<And>w x. n \<le> length (heap w) \<Longrightarrow> fst (m w) = Inr x \<Longrightarrow> Q x"
  shows "keeps n Q m"
  using assms unfolding keeps_def by blast

lemma keeps_return: "Q x \<Longrightarrow> keeps n Q (return x)"
  by (simp add: keeps_def return_apply)

lemma keeps_raise: "keeps n Q (raise e)"
  by (simp add: keeps_def raise_apply)

lemma keeps_eval: "keeps n (\<lambda>x. True) (eval r)"
  by (simp add: keeps_def eval_apply)

lemma keeps_logging_info: "keeps n (\<lambda>x. True) (logging_info msg)"
  by (simp add: keeps_def logging_info_apply)

lemma keeps_logging_warning: "keeps n (\<lambda>x. True) (logging_warning msg)"
  by (simp add: keeps_def logging_warning_apply)

lemma keeps_now: "keeps n (\<lambda>x. True) datetime_now_isoformat"
  by (simp add: keeps_def datetime_now_isoformat_apply)

lemma keeps_heap_read: "keeps n (\<lambda>x. True) (heap_read a)"
  by (simp add: keeps_def heap_read_def)

lemma keeps_heap_new: "keeps n (\<lambda>a. n \<le> a) (heap_new v)"
  by (simp add: keeps_def heap_new_def)

lemma keeps_heap_modify: "n \<le> a \<Longrightarrow> keeps n (\<lambda>x. True) (heap_modify a f)"
  by (auto simp: keeps_def heap_modify_def split: sum.splits)

lemma keeps_then_do:
  assumes m: "keeps n Q m" and f: "\<And>x. Q x \<Longrightarrow> keeps n R (f x)"
  shows "keeps n R (then_do m f)"
proof (rule keepsI)
  fix w :: world
  assume n: "n \<le> length (heap w)"
  obtain r w1 where mw: "m w = (r, w1)" by (cases "m w")
  from m n mw have m1: "take n (heap w1) = take n (heap w)" "length (heap w) \<le> length (heap w1)"
    unfolding keeps_def by fastforce+
  show "take n (heap (snd (then_do m f w))) = take n (heap w)"
  proof (cases r)
    case (Inl e)
    with mw m1 show ?thesis by (simp add: then_do_apply)
  next
    case (Inr x)
    with m n mw have "Q x" unfolding keeps_def by fastforce
    then have "keeps n R (f x)" by (rule f)
    moreover from n m1 have "n \<le> length (heap w1)" by simp
    ultimately have "take n (heap (snd (f x w1))) = take n (heap w1)"
      unfolding keeps_def by blast
    with Inr mw m1 show ?thesis by (simp add: then_do_apply)
  qed
  show "length (heap w) \<le> length (heap (snd (then_do m f w)))"
  proof (cases r)
    case (Inl e)
    with mw m1 show ?thesis by (simp add: then_do_apply)
  next
    case (Inr x)
    with m n mw have "Q x" unfolding keeps_def by fastforce
    then have "keeps n R (f x)" by (rule f)
    moreover from n m1 have "n \<le> length (heap w1)" by simp
    ultimately have "length (heap w1) \<le> length (heap (snd (f x w1)))"
      unfolding keeps_def by blast
    with Inr mw m1 show ?thesis by (simp add: then_do_apply)
  qed
  fix y
  assume res: "fst (then_do m f w) = Inr y"
  show "R y"
  proof (cases r)
    case (Inl e)
    with mw res show ?thesis by (simp add: then_do_apply)
  next
    case (Inr x)
    with m n mw have "Q x" unfolding keeps_def by fastforce
    then have "keeps n R (f x)" by (rule f)
    moreover from n m1 have "n \<le> length (heap w1)" by simp
    moreover from Inr mw res have "fst (f x w1) = Inr y" by (simp add: then_do_apply)
    ultimately show ?thesis
      unfolding keeps_def by blast
  qed
qed

lemma keeps_then_do_any:
  assumes "keeps n (\<lambda>x. True) m" and "\<And>x. keeps n R (f x)"
  shows "keeps n R (then_do m f)"
  using assms by (rule keeps_then_do)

lemma keeps_if:
  assumes "b \<Longrightarrow> keeps n Q m1" and "\<not> b \<Longrightarrow> keeps n Q m2"
  shows "keeps n Q (if b then m1 else m2)"
  using assms by simp

lemma keeps_getitem_at: "keeps n (\<lambda>x. True) (getitem_at a k)"
  unfolding getitem_at_def
  by (rule keeps_then_do_any [OF keeps_heap_read keeps_eval])

lemma keeps_warn_each: "keeps n (\<lambda>x. True) (warn_each es)"
proof (induction es)
  case Nil
  show ?case by (simp add: keeps_return)
next
  case (Cons e es)
  show ?case
    by (simp add: keeps_then_do_any [OF keeps_logging_warning Cons.IH])
qed

lemmas keeps_intros = keeps_then_do_any keeps_if keeps_return keeps_raise keeps_eval
  keeps_logging_info keeps_logging_warning keeps_now keeps_heap_read keeps_getitem_at
  keeps_warn_each

lemmas keeps_steps = keeps_then_do_any [OF keeps_logging_info]
  keeps_then_do_any [OF keeps_logging_warning] keeps_then_do_any [OF keeps_eval]
  keeps_then_do_any [OF keeps_getitem_at] keeps_then_do_any [OF keeps_now]

lemma keeps_validate_user_ref:
  assumes "n \<le> a"
  shows "keeps n (\<lambda>x. True) (validate_user_ref user a)"
  unfolding validate_user_ref_def
  by (intro keeps_intros keeps_heap_modify [OF assms] TrueI)

lemma keeps_validate_loop_ref:
  assumes "n \<le> a"
  shows "keeps n (\<lambda>x. True) (validate_loop_ref us a)"
proof (induction us)
  case Nil
  show ?case by (simp add: keeps_return)
next
  case (Cons u us)
  show ?case
    by (simp add: keeps_then_do_any [OF keeps_validate_user_ref [OF assms] Cons.IH])
qed

lemma keeps_validate_data_ref: "keeps n (\<lambda>a. n \<le> a) (validate_data_ref transformed_data)"
  unfolding validate_data_ref_def
  apply (intro keeps_steps)
  apply (rule keeps_then_do [OF keeps_heap_new])
  apply (intro keeps_steps)
  apply (rule keeps_then_do_any [OF keeps_validate_loop_ref])
   apply assumption
  apply (intro keeps_steps keeps_return)
  apply assumption
  done

lemma keeps_load_data_ref:
  "keeps n (\<lambda>a. n \<le> a) (load_data_ref transformed_data validation_results)"
  unfolding load_data_ref_def
  apply (intro keeps_steps)
  apply (rule keeps_then_do_any)
   apply (intro keeps_if keeps_steps keeps_warn_each keeps_return TrueI)
  apply (intro keeps_steps)
  apply (rule keeps_then_do [OF keeps_heap_new])
  apply (intro keeps_steps keeps_return)
  apply assumption
  done

lemma reads_only_return: "reads_only (return x)"
  by (simp add: reads_only_def return_apply)

lemma reads_only_eval: "reads_only (eval r)"
  by (simp add: reads_only_def eval_apply)

lemma reads_only_logging_info: "reads_only (logging_info msg)"
  by (simp add: reads_only_def logging_info_apply)

lemma reads_only_heap_read: "reads_only (heap_read a)"
  by (simp add: reads_only_def heap_read_def)

lemma reads_only_then_do:
  assumes "reads_only m" and "\<And>x. reads_only (f x)"
  shows "reads_only (then_do m f)"
  unfolding reads_only_def
proof
  fix w :: world
  obtain r w' where mw: "m w = (r, w')" by (cases "m w")
  with assms(1) have h: "heap w' = heap w" unfolding reads_only_def by (metis snd_conv)
  show "heap (snd (then_do m f w)) = heap w"
  proof (cases r)
    case (Inl e)
    with mw h show ?thesis by (simp add: then_do_apply)
  next
    case (Inr x)
    from assms(2) have "heap (snd (f x w')) = heap w'" unfolding reads_only_def by blast
    with Inr mw h show ?thesis by (simp add: then_do_apply)
  qed
qed

lemma reads_only_getitem_at: "reads_only (getitem_at a k)"
  unfolding getitem_at_def
  by (rule reads_only_then_do [OF reads_only_heap_read reads_only_eval])

lemma reads_only_send_notification_ref:
  "reads_only (send_notification_ref loading_summary validation_results)"
  unfolding send_notification_ref_def Let_def
  by (intro reads_only_then_do reads_only_logging_info reads_only_getitem_at reads_only_return)

section \<open>The tasks on the heap compute what the tasks on values compute\<close>

lemma heap_modify_apply:
  "a < length (heap w) \<Longrightarrow>
   heap_modify a f w =
     (case f (heap w ! a) of Inl e \<Rightarrow> (Inl e, w)
      | Inr v \<Rightarrow> (Inr (), w\<lparr>heap := (heap w)[a := v]\<rparr>))"
  by (simp add: heap_modify_def)

lemma heap_read_apply: "a < length (heap w) \<Longrightarrow> heap_read a w = (Inr (heap w ! a), w)"
  by (simp add: heap_read_def)

lemma heap_new_apply: "heap_new v w = (Inr (length (heap w)), w\<lparr>heap := heap w @ [v]\<rparr>)"
  by (simp add: heap_new_def)

lemma getitem_at_apply:
  "a < length (heap w) \<Longrightarrow> getitem_at a k w = (py_getitem (heap w ! a) k, w)"
  by (simp add: getitem_at_def then_do_apply heap_read_apply eval_apply split: sum.splits)

lemma validate_user_ref_step:
  assumes "has_key u ''user_id''" and "a < length (heap w)" and "heap w ! a = vr_dict t v i es"
  shows "validate_user_ref u a w =
     (Inr (), w\<lparr>heap := (heap w)[a := vr_dict t (if user_valid u then v + 1 else v)
                                   (if user_valid u then i else i + 1) (es @ user_errors u)]\<rparr>)"
proof -
  from assms(1) obtain kvs x where u: "u = PDict kvs" "map_of kvs ''user_id'' = Some x"
    by (rule has_key_cases)
  then have g: "py_get u ''user_id'' = Inr x" "py_getitem u ''user_id'' = Inr x"
      "field u ''user_id'' = x"
    by (simp_all add: field_def)
  obtain fn where fn: "py_get u ''full_name'' = Inr fn" "field u ''full_name'' = fn"
    using u(1) by (simp add: field_def)
  obtain ed where ed: "py_get u ''email_domain'' = Inr ed" "field u ''email_domain'' = ed"
    using u(1) by (simp add: field_def)
  show ?thesis
    unfolding validate_user_ref_def
    using assms(2,3)
    by (simp add: g fn ed task_simps heap_modify_apply append_error_vr_dict increment_valid
        increment_invalid user_valid_def user_errors_def missing_required_def missing_domain_def)
qed

lemma validate_loop_ref_result:
  assumes "\<forall>u\<in>set us. has_key u ''user_id''" and "a < length (heap w)"
    and "heap w ! a = vr_dict t v i es"
  shows "validate_loop_ref us a w =
     (Inr (), w\<lparr>heap := (heap w)[a := vr_dict t (v + int (length (filter user_valid us)))
            (i + int (length (filter (\<lambda>u. \<not> user_valid u) us)))
            (es @ concat (map user_errors us))]\<rparr>)"
  using assms
proof (induction us arbitrary: w v i es)
  case Nil
  then show ?case by (simp add: return_apply) (metis list_update_id world.surjective world.update_convs(4))
next
  case (Cons u us)
  let ?v = "if user_valid u then v + 1 else v"
  let ?i = "if user_valid u then i else i + 1"
  let ?w = "w\<lparr>heap := (heap w)[a := vr_dict t ?v ?i (es @ user_errors u)]\<rparr>"
  from Cons.prems have step: "validate_user_ref u a w = (Inr (), ?w)"
    by (simp add: validate_user_ref_step)
  from Cons.prems have "validate_loop_ref us a ?w =
     (Inr (), ?w\<lparr>heap := (heap ?w)[a := vr_dict t (?v + int (length (filter user_valid us)))
            (?i + int (length (filter (\<lambda>u. \<not> user_valid u) us)))
            ((es @ user_errors u) @ concat (map user_errors us))]\<rparr>)"
    by (intro Cons.IH) simp_all
  with step show ?case
    by (simp add: then_do_apply add.assoc)
qed

lemma validate_data_ref_result:
  assumes "td < length (heap w)"
    and "py_getitem (heap w ! td) ''transformed_users'' = Inr (PList us)"
    and "\<forall>u\<in>set us. has_key u ''user_id''"
  shows "validate_data_ref td w =
     (Inr (length (heap w)),
      w\<lparr>logged := logged w @ [(INFO, ''Starting data validation...''),
          (INFO, ''Validation complete: '' @ str_int (int (length (filter user_valid us)))
             @ '' valid, '' @ str_int (int (length (filter (\<lambda>u. \<not> user_valid u) us)))
             @ '' invalid records'')],
        heap := heap w @ [vr_dict (int (length us)) (int (length (filter user_valid us)))
             (int (length (filter (\<lambda>u. \<not> user_valid u) us))) (concat (map user_errors us))]\<rparr>)"
proof -
  let ?w = "w\<lparr>logged := logged w @ [(INFO, ''Starting data validation...'')],
              heap := heap w @ [vr_dict (int (length us)) 0 0 []]\<rparr>"
  have "validate_loop_ref us (length (heap w)) ?w =
     (Inr (), ?w\<lparr>heap := (heap ?w)[length (heap w) :=
        vr_dict (int (length us)) (0 + int (length (filter user_valid us)))
            (0 + int (length (filter (\<lambda>u. \<not> user_valid u) us)))
            ([] @ concat (map user_errors us))]\<rparr>)"
    using assms(3) by (intro validate_loop_ref_result) simp_all
  then show ?thesis
    using assms(1,2)
    by (simp add: validate_data_ref_def task_simps getitem_at_apply heap_new_apply vr_dict_def)
qed

lemma validate_data_ref_refines:
  assumes "td < length (heap w)"
    and "py_getitem (heap w ! td) ''transformed_users'' = Inr (PList us)"
    and "\<forall>u\<in>set us. has_key u ''user_id''"
  shows "\<exists>v w'. validate_data (heap w ! td) w = (Inr v, w')
     \<and> validate_data_ref td w = (Inr (length (heap w)), w'\<lparr>heap := heap w @ [v]\<rparr>)"
  by (simp add: validate_data_result [OF assms(2,3)] validate_data_ref_result [OF assms])

lemma load_data_ref_refines:
  assumes "td < length (heap w)" and "vr < length (heap w)"
  shows "load_data_ref td vr w =
     (case load_data (heap w ! td) (heap w ! vr) w of
        (Inl e, w') \<Rightarrow> (Inl e, w')
      | (Inr v, w') \<Rightarrow> (Inr (length (heap w)), w'\<lparr>heap := heap w @ [v]\<rparr>))"
  using assms
  by (simp add: load_data_ref_def load_data_def task_simps getitem_at_apply heap_new_apply
      warn_each_result split: sum.splits)

lemma send_notification_ref_refines:
  assumes "ls < length (heap w)" and "vr < length (heap w)"
  shows "send_notification_ref ls vr w = send_notification (heap w ! ls) (heap w ! vr) w"
  using assms
  by (simp add: send_notification_ref_def send_notification_def task_simps getitem_at_apply
      split: sum.splits)

lemma keepsD:
  assumes "keeps n Q m" and "n \<le> length (heap w)"
  shows "take n (heap (snd (m w))) = take n (heap w)
     \<and> length (heap w) \<le> length (heap (snd (m w)))
     \<and> (\<forall>x. fst (m w) = Inr x \<longrightarrow> Q x)"
  using assms unfolding keeps_def by blast

section \<open>No object is changed after its creation\<close>

text \<open>
  C9. Validate, Load and Notify leave their inputs unchanged. Run by reference on any heap
  and with any arguments, whether it returns or raises: Validate leaves every object that
  was on the heap as it was, and what it returns is the address of a new object; so does
  Load; Notify leaves the heap as it found it.
\<close>

theorem inputs_left_unchanged:
  "take (length (heap w)) (heap (snd (validate_data_ref transformed_data w))) = heap w
   \<and> (\<forall>r. fst (validate_data_ref transformed_data w) = Inr r \<longrightarrow> length (heap w) \<le> r)
   \<and> take (length (heap w))
        (heap (snd (load_data_ref transformed_data validation_results w))) = heap w
   \<and> (\<forall>r. fst (load_data_ref transformed_data validation_results w) = Inr r
          \<longrightarrow> length (heap w) \<le> r)
   \<and> heap (snd (send_notification_ref loading_summary validation_results w)) = heap w"
proof -
  have v: "take (length (heap w)) (heap (snd (validate_data_ref transformed_data w))) = heap w
     \<and> (\<forall>r. fst (validate_data_ref transformed_data w) = Inr r \<longrightarrow> length (heap w) \<le> r)"
    using keepsD [OF keeps_validate_data_ref [of "length (heap w)" transformed_data], of w]
    by simp
  have l: "take (length (heap w))
        (heap (snd (load_data_ref transformed_data validation_results w))) = heap w
     \<and> (\<forall>r. fst (load_data_ref transformed_data validation_results w) = Inr r
          \<longrightarrow> length (heap w) \<le> r)"
    using keepsD [OF keeps_load_data_ref [of "length (heap w)" transformed_data validation_results],
        of w]
    by simp
  have n: "heap (snd (send_notification_ref loading_summary validation_results w)) = heap w"
    using reads_only_send_notification_ref [of loading_summary validation_results]
    unfolding reads_only_def by simp
  from v l n show ?thesis by simp
qed

lemma heap_w1:
  "heap w1 = [PDict [(''transformed_users'', PList [zero_id, no_domain])],
              vr_dict 2 0 2 [PStr ''Missing email domain for user: 8''],
              PDict [(''records_processed'', PInt 2), (''load_timestamp'', PStr ''t0''),
                     (''status'', PStr ''completed'')]]"
  by (simp add: w1_def)

theorem inputs_left_unchanged_witness:
  "fst (validate_data_ref 0 w1) = Inr 3
   \<and> fst (load_data_ref 0 1 w1) = Inr 3
   \<and> fst (send_notification_ref 2 1 w1) = Inr (PStr ''Notification sent successfully'')
   \<and> length (heap w1) = 3
   \<and> take 3 (heap (snd (validate_data_ref 0 w1))) = heap w1
   \<and> take 3 (heap (snd (load_data_ref 0 1 w1))) = heap w1
   \<and> heap (snd (send_notification_ref 2 1 w1)) = heap w1"
proof -
  have len: "length (heap w1) = 3"
    by (simp add: heap_w1)
  have td: "py_getitem (heap w1 ! 0) ''transformed_users'' = Inr (PList [zero_id, no_domain])"
    by (simp add: heap_w1)
  have keys: "\<forall>u\<in>set [zero_id, no_domain]. has_key u ''user_id''"
    by (simp add: zero_id_def no_domain_def)
  have "validate_data_ref 0 w1 = (Inr (length (heap w1)),
      w1\<lparr>logged := logged w1 @ [(INFO, ''Starting data validation...''),
          (INFO, ''Validation complete: ''
             @ str_int (int (length (filter user_valid [zero_id, no_domain])))
             @ '' valid, ''
             @ str_int (int (length (filter (\<lambda>u. \<not> user_valid u) [zero_id, no_domain])))
             @ '' invalid records'')],
        heap := heap w1 @ [vr_dict (int (length [zero_id, no_domain]))
             (int (length (filter user_valid [zero_id, no_domain])))
             (int (length (filter (\<lambda>u. \<not> user_valid u) [zero_id, no_domain])))
             (concat (map user_errors [zero_id, no_domain]))]\<rparr>)"
    using td keys by (intro validate_data_ref_result) (simp_all add: len)
  then have r1: "fst (validate_data_ref 0 w1) = Inr 3"
    by (simp add: len)
  have "fst (load_data (heap w1 ! 0) (heap w1 ! 1) w1) =
      Inr (PDict [(''records_processed'', PInt (int (length [zero_id, no_domain]))),
                  (''load_timestamp'', PStr (clock w1 (ticks w1))),
                  (''status'', PStr ''completed'')])"
    by (subst load_data_result [where us = "[zero_id, no_domain]" and i = 2
          and es = "[PStr ''Missing email domain for user: 8'']"])
      (simp_all add: heap_w1 vr_dict_def)
  then obtain w' where "load_data (heap w1 ! 0) (heap w1 ! 1) w1 =
      (Inr (PDict [(''records_processed'', PInt (int (length [zero_id, no_domain]))),
                   (''load_timestamp'', PStr (clock w1 (ticks w1))),
                   (''status'', PStr ''completed'')]), w')"
    by (cases "load_data (heap w1 ! 0) (heap w1 ! 1) w1") simp
  then have r2: "fst (load_data_ref 0 1 w1) = Inr 3"
    by (simp add: load_data_ref_refines len)
  have "fst (send_notification (heap w1 ! 2) (heap w1 ! 1) w1) =
      Inr (PStr ''Notification sent successfully'')"
    by (rule send_notification_result) (simp_all add: heap_w1 vr_dict_def)
  then have r3: "fst (send_notification_ref 2 1 w1) = Inr (PStr ''Notification sent successfully'')"
    by (simp add: send_notification_ref_refines len)
  from inputs_left_unchanged [of w1 0 1 2] r1 r2 r3 len show ?thesis
    by simp
qed

end
